theory Spec2Isabelle
  imports Complex_Main
begin

section \<open>The escape-time kernels of lecture.ipynb\<close>

text \<open>
  The notebook defines two functions, \<open>mandelbrot_python\<close> and \<open>mandelbrot_numpy\<close>.
  Both build the coordinate array \<open>c\<close> with \<open>np.ogrid\<close>, allocate the result array
  \<open>fractal\<close> with \<open>np.full(c.shape, 20, dtype=np.int32)\<close> and fill it: the first with
  three nested \<open>for\<close> loops over scalars, the second with one loop over whole arrays.
\<close>

subsection \<open>NumPy's arithmetic\<close>

text \<open>
  The float64 and complex128 operations are NumPy's, not the notebook's. They enter the
  model as a record of the six operations the two functions use, over a type \<open>'r\<close> of
  float64 values and a type \<open>'z\<close> of complex128 values. A theorem stated for every
  such record holds whatever the rounding is. The same elementwise operation is used
  for a scalar and for every element of an array.
\<close>

record ('r, 'z) numpy =
  ogrid_sample :: "real \<Rightarrow> real \<Rightarrow> nat \<Rightarrow> nat \<Rightarrow> 'r"
    \<comment> \<open>\<open>ogrid_sample start stop n k\<close>: element \<open>k\<close> of \<open>np.ogrid[start:stop:n*1j]\<close>\<close>
  add_times_1j :: "'r \<Rightarrow> 'r \<Rightarrow> 'z"
    \<comment> \<open>\<open>add_times_1j x y\<close>: \<open>x + y*1j\<close>\<close>
  square_plus :: "'z \<Rightarrow> 'z \<Rightarrow> 'z"
    \<comment> \<open>\<open>square_plus z c\<close>: \<open>z**2 + c\<close>\<close>
  abs_gt_2 :: "'z \<Rightarrow> bool"
    \<comment> \<open>\<open>abs(z) > 2\<close>\<close>
  sumsq_gt_4 :: "'z \<Rightarrow> bool"
    \<comment> \<open>\<open>z.real**2 + z.imag**2 > 4\<close>\<close>
  complex_2 :: "'z"
    \<comment> \<open>the complex128 value that \<open>z[diverged] = 2\<close> stores\<close>

text \<open>
  The reading of these operations in exact real and complex arithmetic. For a complex
  step \<open>n*1j\<close>, \<open>np.ogrid\<close> computes \<open>arange(n) * step + start\<close> with
  \<open>step = (stop - start) / float(n - 1)\<close> when \<open>n \<noteq> 1\<close> and with \<open>step = 1\<close>
  when \<open>n = 1\<close>.
\<close>

definition exact :: "(real, complex) numpy" where
  "exact =
     \<lparr> ogrid_sample = (\<lambda>start stop n k.
         of_nat k * (if n = 1 then 1 else (stop - start) / (of_nat n - 1)) + start),
       add_times_1j = (\<lambda>x y. complex_of_real x + complex_of_real y * \<i>),
       square_plus = (\<lambda>z c. z\<^sup>2 + c),
       abs_gt_2 = (\<lambda>z. cmod z > 2),
       sumsq_gt_4 = (\<lambda>z. (Re z)\<^sup>2 + (Im z)\<^sup>2 > 4),
       complex_2 = 2 \<rparr>"

subsection \<open>NumPy's arithmetic in float64\<close>

text \<open>
  The reading of the operations in IEEE 754 binary64, round to nearest. A double is
  represented by the real number it stands for. The range of exponents is not bounded:
  there is no overflow and there are no subnormal numbers, and signed zeros are not
  told apart; the values of the runs below are far from both limits.
\<close>

text \<open>
  \<open>fl\<close> rounds a real number to the nearest double, ties to even. The number is
  scaled by powers of two until it lies between \<open>2^52\<close> and \<open>2^53\<close>, rounded to an
  integer there by \<open>rne\<close> and scaled back.
\<close>

function scale_up :: "real \<Rightarrow> real \<Rightarrow> real \<times> real" where
  "scale_up y f = (if 0 < y \<and> y < 2 ^ 52 then scale_up (y * 2) (f / 2) else (y, f))"
  by pat_completeness auto
termination
proof (relation "measure (\<lambda>(y, f). nat \<lceil>2 ^ 52 / y\<rceil>)")
  show "wf (measure (\<lambda>(y, f). nat \<lceil>2 ^ 52 / y\<rceil>))" by simp
next
  fix y f :: real
  assume a: "0 < y \<and> y < 2 ^ 52"
  define a where "a = 2 ^ 52 / y"
  have a1: "1 < a" using a by (simp add: a_def)
  then have "2 \<le> \<lceil>a\<rceil>" by linarith
  have "a / 2 \<le> of_int \<lceil>a\<rceil> / 2" by (simp add: divide_right_mono)
  also have "\<dots> \<le> of_int (\<lceil>a\<rceil> - 1)" using \<open>2 \<le> \<lceil>a\<rceil>\<close> by simp
  finally have "\<lceil>a / 2\<rceil> \<le> \<lceil>a\<rceil> - 1" by (rule ceiling_le)
  then have "nat \<lceil>a / 2\<rceil> < nat \<lceil>a\<rceil>"
    using \<open>2 \<le> \<lceil>a\<rceil>\<close> by linarith
  moreover have "2 ^ 52 / (y * 2) = a / 2" by (simp add: a_def)
  ultimately show "((y * 2, f / 2), (y, f)) \<in> measure (\<lambda>(y, f). nat \<lceil>2 ^ 52 / y\<rceil>)"
    by (simp add: a_def)
qed

function scale_down :: "real \<Rightarrow> real \<Rightarrow> real \<times> real" where
  "scale_down y f = (if 2 ^ 53 \<le> y then scale_down (y / 2) (f * 2) else (y, f))"
  by pat_completeness auto
termination
proof (relation "measure (\<lambda>(y, f). nat \<lceil>y\<rceil>)")
  show "wf (measure (\<lambda>(y, f). nat \<lceil>y\<rceil>))" by simp
next
  fix y f :: real
  assume a: "2 ^ 53 \<le> y"
  then have "2 \<le> y" by simp
  then have "2 \<le> \<lceil>y\<rceil>" by linarith
  have "y / 2 \<le> of_int \<lceil>y\<rceil> / 2" by (simp add: divide_right_mono)
  also have "\<dots> \<le> of_int (\<lceil>y\<rceil> - 1)" using \<open>2 \<le> \<lceil>y\<rceil>\<close> by simp
  finally have "\<lceil>y / 2\<rceil> \<le> \<lceil>y\<rceil> - 1" by (rule ceiling_le)
  then have "nat \<lceil>y / 2\<rceil> < nat \<lceil>y\<rceil>"
    using \<open>2 \<le> \<lceil>y\<rceil>\<close> by linarith
  then show "((y / 2, f * 2), (y, f)) \<in> measure (\<lambda>(y, f). nat \<lceil>y\<rceil>)"
    by simp
qed

declare scale_up.simps [simp del] scale_down.simps [simp del]

definition rne :: "real \<Rightarrow> int" where
  "rne y = (let n = \<lfloor>y\<rfloor>; d = y - of_int n
            in if d < 1 / 2 then n else if 1 / 2 < d then n + 1
               else if even n then n else n + 1)"

definition fl_pos :: "real \<Rightarrow> real" where
  "fl_pos x = (case scale_up x 1 of (y, f) \<Rightarrow>
                 (case scale_down y f of (y', f') \<Rightarrow> of_int (rne y') * f'))"

definition fl :: "real \<Rightarrow> real" where
  "fl x = (if x < 0 then - fl_pos (- x) else fl_pos x)"

text \<open>
  The operations as NumPy carries them out on doubles, each arithmetic step rounded:
  \<open>np.ogrid\<close> gives \<open>arange(n) * step + start\<close> with
  \<open>step = (stop - start) / float(n - 1)\<close>; \<open>x + y*1j\<close> has the parts \<open>x\<close> and \<open>y\<close>;
  \<open>z**2\<close> is the product \<open>(re*re - im*im, re*im + im*re)\<close>; \<open>abs\<close> is the C
  function \<open>hypot\<close>, taken as correctly rounded, so that \<open>abs(z) > 2\<close> holds exactly
  when the modulus exceeds \<open>2 + 2^-52\<close>, the midpoint between 2 and the next double.
\<close>

definition float64 :: "(real, complex) numpy" where
  "float64 =
     \<lparr> ogrid_sample = (\<lambda>start stop n k.
         fl (fl (fl (of_nat k)
                 * (if n = 1 then 1 else fl (fl (stop - start) / fl (of_nat n - 1))))
             + start)),
       add_times_1j = (\<lambda>x y. Complex x y),
       square_plus = (\<lambda>z c.
         Complex (fl (fl (fl (Re z * Re z) - fl (Im z * Im z)) + Re c))
                 (fl (fl (fl (Re z * Im z) + fl (Im z * Re z)) + Im c))),
       abs_gt_2 = (\<lambda>z. (2 + 1 / 2 ^ 52)\<^sup>2 < (Re z)\<^sup>2 + (Im z)\<^sup>2),
       sumsq_gt_4 = (\<lambda>z. 4 < fl (fl (Re z * Re z) + fl (Im z * Im z))),
       complex_2 = 2 \<rparr>"

subsection \<open>Arrays and the store\<close>

text \<open>
  A two-dimensional array is the list of its rows. The arrays that the functions bind
  to names, alias or write in place (\<open>c\<close>, \<open>z\<close>, \<open>fractal\<close>) live in a store and are
  named by their address; the one-dimensional arrays \<open>x\<close>, \<open>y\<close> and the boolean masks
  are temporaries that are only read, and are plain values.
\<close>

type_synonym 'a array2 = "'a list list"

type_synonym addr = nat

record 'z store =
  complex_arrays :: "addr \<Rightarrow> 'z array2"
  int_arrays :: "addr \<Rightarrow> int array2"
  free :: addr

definition new_complex :: "'z array2 \<Rightarrow> 'z store \<Rightarrow> addr \<times> 'z store" where
  "new_complex a s =
     (free s, s\<lparr>complex_arrays := (complex_arrays s)(free s := a), free := Suc (free s)\<rparr>)"

definition new_int :: "int array2 \<Rightarrow> 'z store \<Rightarrow> addr \<times> 'z store" where
  "new_int a s =
     (free s, s\<lparr>int_arrays := (int_arrays s)(free s := a), free := Suc (free s)\<rparr>)"

text \<open>
  The cells of the int32 array \<open>fractal\<close> only ever hold 20 or a loop index below 20,
  so they are integers without wrap-around. An array without rows does not record
  its number of columns: its \<open>shape\<close> reads \<open>(0, 0)\<close>, and \<open>full\<close> of it is the
  array without rows again.
\<close>

definition shape :: "'a array2 \<Rightarrow> nat \<times> nat" where
  "shape a = (length a, case a of [] \<Rightarrow> 0 | r # _ \<Rightarrow> length r)"

definition full :: "nat \<times> nat \<Rightarrow> 'a \<Rightarrow> 'a array2" where
  "full sh v = replicate (fst sh) (replicate (snd sh) v)"

definition get2 :: "'a array2 \<Rightarrow> nat \<Rightarrow> nat \<Rightarrow> 'a" where
  "get2 a r q = a ! r ! q"

definition set2 :: "'a array2 \<Rightarrow> nat \<Rightarrow> nat \<Rightarrow> 'a \<Rightarrow> 'a array2" where
  "set2 a r q v = a[r := (a ! r)[q := v]]"

definition elementwise :: "('a \<Rightarrow> 'b) \<Rightarrow> 'a array2 \<Rightarrow> 'b array2" where
  "elementwise f a = map (map f) a"

definition elementwise2 :: "('a \<Rightarrow> 'b \<Rightarrow> 'c) \<Rightarrow> 'a array2 \<Rightarrow> 'b array2 \<Rightarrow> 'c array2" where
  "elementwise2 f a b = map2 (map2 f) a b"

definition mask_assign :: "'a array2 \<Rightarrow> bool array2 \<Rightarrow> 'a \<Rightarrow> 'a array2" where
  \<comment> \<open>\<open>a[mask] = v\<close>\<close>
  "mask_assign a msk v = elementwise2 (\<lambda>x m. if m then v else x) a msk"

subsection \<open>The coordinate grid (lines 1 and 2 of both functions)\<close>

text \<open>
  \<open>y, x = np.ogrid[-1:0:height*1j, -1.5:0:width*1j]\<close> gives \<open>int(abs(height*1j))\<close>
  samples for \<open>y\<close> and \<open>int(abs(width*1j))\<close> for \<open>x\<close>: the absolute values of the two
  arguments (the conversion through float64 is exact below \<open>2^53\<close>, far beyond any
  array that can be allocated). \<open>c = x + y*1j\<close> broadcasts the column \<open>y\<close> against the
  row \<open>x\<close>. Neither function checks its arguments, and no statement of either raises.
\<close>

definition ogrid :: "('r, 'z) numpy \<Rightarrow> real \<Rightarrow> real \<Rightarrow> int \<Rightarrow> 'r list" where
  "ogrid A start stop m = map (ogrid_sample A start stop (nat \<bar>m\<bar>)) [0..<nat \<bar>m\<bar>]"

definition coordinates :: "('r, 'z) numpy \<Rightarrow> int \<Rightarrow> int \<Rightarrow> 'z array2" where
  "coordinates A height width =
     (let y = ogrid A (-1) 0 height;
          x = ogrid A (-1.5) 0 width
      in map (\<lambda>yv. map (\<lambda>xv. add_times_1j A xv yv) x) y)"

subsection \<open>mandelbrot_python\<close>

text \<open>
  The innermost loop, \<open>for i in range(20)\<close>, with the running value of \<open>z\<close>: it
  returns the index at which the loop breaks, or \<open>None\<close> when it runs to its end.
\<close>

fun iterate :: "('r, 'z) numpy \<Rightarrow> 'z \<Rightarrow> 'z \<Rightarrow> nat list \<Rightarrow> nat option" where
  "iterate A c z [] = None"
| "iterate A c z (i # idxs) =
     (let z' = square_plus A z c
      in if abs_gt_2 A z' then Some i else iterate A c z' idxs)"

definition pixel :: "('r, 'z) numpy \<Rightarrow> addr \<Rightarrow> addr \<Rightarrow> nat \<Rightarrow> nat \<Rightarrow> 'z store \<Rightarrow> 'z store" where
  \<comment> \<open>the body of \<open>for w in range(width)\<close>\<close>
  "pixel A c fractal h w s =
     (let z = get2 (complex_arrays s c) h w
      in case iterate A (get2 (complex_arrays s c) h w) z [0..<20] of
           None \<Rightarrow> s
         | Some i \<Rightarrow>
             s\<lparr>int_arrays := (int_arrays s)(fractal := set2 (int_arrays s fractal) h w (int i))\<rparr>)"

definition mandelbrot_python ::
  "('r, 'z) numpy \<Rightarrow> 'z store \<Rightarrow> int \<Rightarrow> int \<Rightarrow> addr \<times> 'z store" where
  "mandelbrot_python A s height width =
     (let (c, s1) = new_complex (coordinates A height width) s;
          (fractal, s2) = new_int (full (shape (complex_arrays s1 c)) 20) s1;
          s3 = fold (\<lambda>h. fold (\<lambda>w. pixel A c fractal h w) [0..<nat width])
                 [0..<nat height] s2
      in (fractal, s3))"

subsection \<open>mandelbrot_numpy\<close>

text \<open>
  The loop state is the store and the address that the name \<open>z\<close> is bound to. One pass
  of \<open>for i in range(20)\<close> is \<open>recur\<close> (the statement \<open>z = z**2 + c\<close>, which binds
  \<open>z\<close> to a new array) followed by \<open>record_and_clamp\<close> (the other four statements,
  which write \<open>fractal\<close> and \<open>z\<close> in place).
\<close>

definition recur :: "('r, 'z) numpy \<Rightarrow> addr \<Rightarrow> addr \<times> 'z store \<Rightarrow> addr \<times> 'z store" where
  "recur A c = (\<lambda>(z, s).
     new_complex (elementwise2 (square_plus A) (complex_arrays s z) (complex_arrays s c)) s)"

definition diverged_mask :: "('r, 'z) numpy \<Rightarrow> addr \<times> 'z store \<Rightarrow> bool array2" where
  "diverged_mask A = (\<lambda>(z, s). elementwise (sumsq_gt_4 A) (complex_arrays s z))"

definition record_and_clamp ::
  "('r, 'z) numpy \<Rightarrow> addr \<Rightarrow> nat \<Rightarrow> addr \<times> 'z store \<Rightarrow> addr \<times> 'z store" where
  "record_and_clamp A fractal i = (\<lambda>(z, s).
     (let diverged = diverged_mask A (z, s);
          diverging_now =
            elementwise2 (\<and>) diverged (elementwise (\<lambda>v. v = 20) (int_arrays s fractal));
          s1 = s\<lparr>int_arrays :=
                 (int_arrays s)(fractal := mask_assign (int_arrays s fractal) diverging_now (int i))\<rparr>;
          s2 = s1\<lparr>complex_arrays :=
                 (complex_arrays s1)(z := mask_assign (complex_arrays s1 z) diverged (complex_2 A))\<rparr>
      in (z, s2)))"

definition numpy_step ::
  "('r, 'z) numpy \<Rightarrow> addr \<Rightarrow> addr \<Rightarrow> nat \<Rightarrow> addr \<times> 'z store \<Rightarrow> addr \<times> 'z store" where
  "numpy_step A c fractal i st = record_and_clamp A fractal i (recur A c st)"

definition numpy_init :: "('r, 'z) numpy \<Rightarrow> 'z store \<Rightarrow> int \<Rightarrow> int \<Rightarrow> addr \<times> addr \<times> 'z store" where
  \<comment> \<open>the two allocations before the loop: the addresses of \<open>c\<close> and \<open>fractal\<close>\<close>
  "numpy_init A s height width =
     (let (c, s1) = new_complex (coordinates A height width) s;
          (fractal, s2) = new_int (full (shape (complex_arrays s1 c)) 20) s1
      in (c, fractal, s2))"

definition numpy_loop ::
  "('r, 'z) numpy \<Rightarrow> addr \<Rightarrow> addr \<Rightarrow> nat list \<Rightarrow> addr \<times> 'z store \<Rightarrow> addr \<times> 'z store" where
  "numpy_loop A c fractal idxs st = fold (numpy_step A c fractal) idxs st"

definition mandelbrot_numpy ::
  "('r, 'z) numpy \<Rightarrow> 'z store \<Rightarrow> int \<Rightarrow> int \<Rightarrow> addr \<times> 'z store" where
  "mandelbrot_numpy A s height width =
     (let (c, fractal, s2) = numpy_init A s height width;
          z = c;
          (z', s3) = numpy_loop A c fractal [0..<20] (z, s2)
      in (fractal, s3))"

definition field_of :: "addr \<times> 'z store \<Rightarrow> int array2" where
  \<comment> \<open>the contents of the returned array\<close>
  "field_of = (\<lambda>(fractal, s). int_arrays s fractal)"

subsection \<open>The orbit of the specification\<close>

text \<open>
  The orbit that the specification speaks of: \<open>z\<^sub>0 = c\<close> and \<open>z\<^sub>k\<^sub>+\<^sub>1 = z\<^sub>k\<^sup>2 + c\<close>, with the
  same update operation as the code.
\<close>

fun orbit :: "('r, 'z) numpy \<Rightarrow> 'z \<Rightarrow> nat \<Rightarrow> 'z" where
  "orbit A c 0 = c"
| "orbit A c (Suc k) = square_plus A (orbit A c k) c"

subsection \<open>Notions used in the proofs\<close>

text \<open>
  An array with \<open>n\<close> rows and \<open>m\<close> columns given by its cells; the coordinate of a
  cell; the value that the innermost loop of \<open>mandelbrot_python\<close> leaves in a cell.
\<close>

definition tab :: "nat \<Rightarrow> nat \<Rightarrow> (nat \<Rightarrow> nat \<Rightarrow> 'a) \<Rightarrow> 'a array2" where
  "tab n m g = map (\<lambda>r. map (g r) [0..<m]) [0..<n]"

definition grid_point :: "('r, 'z) numpy \<Rightarrow> int \<Rightarrow> int \<Rightarrow> nat \<Rightarrow> nat \<Rightarrow> 'z" where
  "grid_point A height width r q =
     add_times_1j A (ogrid_sample A (-1.5) 0 (nat \<bar>width\<bar>) q)
                    (ogrid_sample A (-1) 0 (nat \<bar>height\<bar>) r)"

definition escape_time :: "('r, 'z) numpy \<Rightarrow> 'z \<Rightarrow> int" where
  "escape_time A c = (case iterate A c c [0..<20] of None \<Rightarrow> 20 | Some i \<Rightarrow> int i)"

text \<open>
  The invariant of the two outer loops of \<open>mandelbrot_python\<close>: the cells in \<open>D\<close> are
  done, the others still hold 20.
\<close>

definition filled ::
  "('r, 'z) numpy \<Rightarrow> addr \<Rightarrow> addr \<Rightarrow> nat \<Rightarrow> nat \<Rightarrow> (nat \<Rightarrow> nat \<Rightarrow> 'z) \<Rightarrow> (nat \<times> nat) set
     \<Rightarrow> 'z store \<Rightarrow> bool" where
  "filled A c fractal n m cf D s \<longleftrightarrow>
     complex_arrays s c = tab n m cf \<and>
     int_arrays s fractal = tab n m (\<lambda>r q. if (r, q) \<in> D then escape_time A (cf r q) else 20)"

text \<open>
  One pass of the loop of \<open>mandelbrot_numpy\<close> seen from a single cell, as a step on the
  pair of the cell's \<open>z\<close> and its \<open>fractal\<close> value, and the invariant of that loop:
  the arrays at \<open>c\<close>, at \<open>z\<close> and at \<open>fractal\<close> are given cell by cell, and the
  address of \<open>c\<close> is allocated.
\<close>

fun cell_step :: "('r, 'z) numpy \<Rightarrow> 'z \<Rightarrow> nat \<Rightarrow> 'z \<times> int \<Rightarrow> 'z \<times> int" where
  "cell_step A c i (z, f) =
     (let z1 = square_plus A z c; d = sumsq_gt_4 A z1
      in (if d then complex_2 A else z1, if d \<and> f = 20 then int i else f))"

definition numpy_inv ::
  "addr \<Rightarrow> addr \<Rightarrow> nat \<Rightarrow> nat \<Rightarrow> (nat \<Rightarrow> nat \<Rightarrow> 'z) \<Rightarrow> (nat \<Rightarrow> nat \<Rightarrow> 'z) \<Rightarrow> (nat \<Rightarrow> nat \<Rightarrow> int)
     \<Rightarrow> addr \<times> 'z store \<Rightarrow> bool" where
  "numpy_inv c fractal n m cf zf ff = (\<lambda>(z, s).
     complex_arrays s c = tab n m cf \<and> complex_arrays s z = tab n m zf \<and>
     int_arrays s fractal = tab n m ff \<and> c < free s)"

text \<open>
  The cell \<open>z[r, q]\<close> of the array that the name \<open>z\<close> is bound to in a loop state of
  \<open>mandelbrot_numpy\<close>, and the cell \<open>fractal[r, q]\<close>.
\<close>

definition z_cell :: "addr \<times> 'z store \<Rightarrow> nat \<Rightarrow> nat \<Rightarrow> 'z" where
  "z_cell st r q = get2 (complex_arrays (snd st) (fst st)) r q"

definition fractal_cell :: "addr \<Rightarrow> addr \<times> 'z store \<Rightarrow> nat \<Rightarrow> nat \<Rightarrow> int" where
  "fractal_cell fractal st r q = get2 (int_arrays (snd st) fractal) r q"

text \<open>A store without arrays, for the concrete runs below.\<close>

definition empty_store :: "'z store" where
  "empty_store = \<lparr> complex_arrays = (\<lambda>a. []), int_arrays = (\<lambda>a. []), free = 0 \<rparr>"

section \<open>Properties of the arrays\<close>

lemma length_tab: "length (tab n m g) = n"
  by (simp add: tab_def)

lemma nth_tab: "r < n \<Longrightarrow> tab n m g ! r = map (g r) [0..<m]"
  by (simp add: tab_def)

lemma get2_tab: "r < n \<Longrightarrow> q < m \<Longrightarrow> get2 (tab n m g) r q = g r q"
  by (simp add: get2_def nth_tab)

lemma row_tab: "row \<in> set (tab n m g) \<Longrightarrow> length row = m"
  by (auto simp: tab_def)

lemma tab_cong: "(\<And>r q. r < n \<Longrightarrow> q < m \<Longrightarrow> g r q = g' r q) \<Longrightarrow> tab n m g = tab n m g'"
  by (simp add: tab_def)

lemma coordinates_tab:
  "coordinates A height width =
     tab (nat \<bar>height\<bar>) (nat \<bar>width\<bar>)
       (\<lambda>r q. add_times_1j A (ogrid_sample A (-1.5) 0 (nat \<bar>width\<bar>) q)
                               (ogrid_sample A (-1) 0 (nat \<bar>height\<bar>) r))"
  by (simp add: coordinates_def ogrid_def tab_def comp_def)

lemma full_shape_tab: "full (shape (tab n m g)) v = tab n m (\<lambda>r q. v)"
proof (cases n)
  case 0
  then show ?thesis by (simp add: full_def shape_def tab_def)
next
  case (Suc k)
  have "tab (Suc k) m g = map (g 0) [0..<m] # map (\<lambda>r. map (g r) [0..<m]) [Suc 0..<Suc k]"
    by (simp add: tab_def upt_conv_Cons del: upt_Suc)
  then have "shape (tab (Suc k) m g) = (Suc k, m)"
    by (simp add: shape_def length_tab)
  then show ?thesis
    using Suc by (simp add: full_def tab_def map_replicate_const)
qed

lemma map2_same: "map2 f (map g xs) (map h xs) = map (\<lambda>x. f (g x) (h x)) xs"
  by (induction xs) simp_all

lemma elementwise2_tab:
  "elementwise2 f (tab n m g) (tab n m g') = tab n m (\<lambda>r q. f (g r q) (g' r q))"
  by (simp add: elementwise2_def tab_def map2_same)

lemma elementwise_tab: "elementwise f (tab n m g) = tab n m (\<lambda>r q. f (g r q))"
  by (simp add: elementwise_def tab_def comp_def)

lemma mask_assign_tab:
  "mask_assign (tab n m g) (tab n m b) v = tab n m (\<lambda>r q. if b r q then v else g r q)"
  by (simp add: mask_assign_def elementwise2_tab)

lemma map_upt_update:
  "i < n \<Longrightarrow> (map f [0..<n])[i := v] = map (\<lambda>j. if j = i then v else f j) [0..<n]"
  by (rule nth_equalityI) (simp_all add: nth_list_update)

lemma set2_tab:
  assumes "r < n" "q < m"
  shows "set2 (tab n m g) r q v = tab n m (\<lambda>r' q'. if r' = r \<and> q' = q then v else g r' q')"
proof -
  have "set2 (tab n m g) r q v
        = map (\<lambda>j. if j = r then (map (g r) [0..<m])[q := v] else map (g j) [0..<m]) [0..<n]"
    using assms by (simp add: set2_def tab_def map_upt_update)
  also have "\<dots> = tab n m (\<lambda>r' q'. if r' = r \<and> q' = q then v else g r' q')"
    using assms by (auto simp: tab_def map_upt_update)
  finally show ?thesis .
qed

lemma coordinates_grid:
  "coordinates A height width = tab (nat \<bar>height\<bar>) (nat \<bar>width\<bar>) (grid_point A height width)"
  unfolding grid_point_def by (rule coordinates_tab)

section \<open>The loops of mandelbrot_python\<close>

lemma pixel_filled:
  assumes "filled A c fractal n m cf D s" "h < n" "w < m"
  shows "filled A c fractal n m cf (insert (h, w) D) (pixel A c fractal h w s)"
proof (cases "iterate A (cf h w) (cf h w) [0..<20]")
  case None
  then have "escape_time A (cf h w) = 20"
    by (simp add: escape_time_def)
  then have "tab n m (\<lambda>r q. if (r, q) \<in> insert (h, w) D then escape_time A (cf r q) else 20)
             = tab n m (\<lambda>r q. if (r, q) \<in> D then escape_time A (cf r q) else 20)"
    by (intro tab_cong) auto
  with None assms show ?thesis
    by (simp add: filled_def pixel_def get2_tab)
next
  case (Some i)
  then have "escape_time A (cf h w) = int i"
    by (simp add: escape_time_def)
  then have "tab n m (\<lambda>r q. if (r, q) \<in> insert (h, w) D then escape_time A (cf r q) else 20)
             = tab n m (\<lambda>r q. if r = h \<and> q = w then int i
                   else if (r, q) \<in> D then escape_time A (cf r q) else 20)"
    by (intro tab_cong) auto
  with Some assms show ?thesis
    by (simp add: filled_def pixel_def get2_tab set2_tab)
qed

lemma row_filled:
  assumes "filled A c fractal n m cf D s" "h < n" "\<forall>w\<in>set ws. w < m"
  shows "filled A c fractal n m cf (D \<union> {h} \<times> set ws) (fold (pixel A c fractal h) ws s)"
  using assms
proof (induction ws arbitrary: s D)
  case Nil
  then show ?case by simp
next
  case (Cons w ws)
  from Cons.prems have "filled A c fractal n m cf (insert (h, w) D) (pixel A c fractal h w s)"
    by (intro pixel_filled) simp_all
  from Cons.IH[OF this] Cons.prems have
    "filled A c fractal n m cf (insert (h, w) D \<union> {h} \<times> set ws)
       (fold (pixel A c fractal h) ws (pixel A c fractal h w s))"
    by simp
  moreover have "insert (h, w) D \<union> {h} \<times> set ws = D \<union> {h} \<times> set (w # ws)"
    by auto
  ultimately show ?case by simp
qed

lemma rows_filled:
  assumes "filled A c fractal n m cf D s" "\<forall>h\<in>set hs. h < n" "\<forall>w\<in>set ws. w < m"
  shows "filled A c fractal n m cf (D \<union> set hs \<times> set ws)
           (fold (\<lambda>h. fold (pixel A c fractal h) ws) hs s)"
  using assms
proof (induction hs arbitrary: s D)
  case Nil
  then show ?case by simp
next
  case (Cons h hs)
  from Cons.prems have "filled A c fractal n m cf (D \<union> {h} \<times> set ws)
      (fold (pixel A c fractal h) ws s)"
    by (intro row_filled) simp_all
  from Cons.IH[OF this] Cons.prems have
    "filled A c fractal n m cf (D \<union> {h} \<times> set ws \<union> set hs \<times> set ws)
       (fold (\<lambda>h. fold (pixel A c fractal h) ws) hs (fold (pixel A c fractal h) ws s))"
    by simp
  moreover have "D \<union> {h} \<times> set ws \<union> set hs \<times> set ws = D \<union> set (h # hs) \<times> set ws"
    by auto
  ultimately show ?case by simp
qed

lemma field_python:
  "field_of (mandelbrot_python A s height width) =
     tab (nat \<bar>height\<bar>) (nat \<bar>width\<bar>)
       (\<lambda>r q. if r < nat height \<and> q < nat width
              then escape_time A (grid_point A height width r q) else 20)"
proof -
  let ?n = "nat \<bar>height\<bar>" and ?m = "nat \<bar>width\<bar>"
  let ?c = "free s"
  let ?s1 = "snd (new_complex (coordinates A height width) s)"
  let ?fr = "free ?s1"
  let ?s2 = "snd (new_int (full (shape (complex_arrays ?s1 ?c)) 20) ?s1)"
  let ?s3 = "fold (\<lambda>h. fold (pixel A ?c ?fr h) [0..<nat width]) [0..<nat height] ?s2"
  have res: "mandelbrot_python A s height width = (?fr, ?s3)"
    by (simp add: mandelbrot_python_def new_complex_def new_int_def Let_def)
  have "filled A ?c ?fr ?n ?m (grid_point A height width) {} ?s2"
    by (simp add: filled_def new_complex_def new_int_def coordinates_grid full_shape_tab)
  then have "filled A ?c ?fr ?n ?m (grid_point A height width)
      ({} \<union> set [0..<nat height] \<times> set [0..<nat width]) ?s3"
    by (intro rows_filled) auto
  then have "int_arrays ?s3 ?fr = tab ?n ?m (\<lambda>r q. if (r, q) \<in> {} \<union> set [0..<nat height] \<times> set [0..<nat width]
      then escape_time A (grid_point A height width r q) else 20)"
    by (simp only: filled_def)
  also have "\<dots> = tab ?n ?m (\<lambda>r q. if r < nat height \<and> q < nat width
              then escape_time A (grid_point A height width r q) else 20)"
    by (intro tab_cong) auto
  finally show ?thesis
    by (simp add: res field_of_def)
qed

section \<open>The loop of mandelbrot_numpy\<close>

lemma recur_inv:
  assumes "numpy_inv c fractal n m cf zf ff st"
  shows "numpy_inv c fractal n m cf (\<lambda>r q. square_plus A (zf r q) (cf r q)) ff (recur A c st)"
    and "fst (recur A c st) = free (snd st)"
    and "fst (recur A c st) \<noteq> c"
  using assms
  by (auto simp: numpy_inv_def recur_def new_complex_def elementwise2_tab split: prod.splits)

lemma record_and_clamp_inv:
  assumes "numpy_inv c fractal n m cf zf ff st" "fst st \<noteq> c"
  shows "numpy_inv c fractal n m cf
           (\<lambda>r q. if sumsq_gt_4 A (zf r q) then complex_2 A else zf r q)
           (\<lambda>r q. if sumsq_gt_4 A (zf r q) \<and> ff r q = 20 then int i else ff r q)
           (record_and_clamp A fractal i st)"
  using assms
  by (auto simp: numpy_inv_def record_and_clamp_def diverged_mask_def Let_def
      elementwise_tab elementwise2_tab mask_assign_tab split: prod.splits)

lemma numpy_step_inv:
  assumes "numpy_inv c fractal n m cf zf ff st"
  shows "numpy_inv c fractal n m cf
           (\<lambda>r q. fst (cell_step A (cf r q) i (zf r q, ff r q)))
           (\<lambda>r q. snd (cell_step A (cf r q) i (zf r q, ff r q)))
           (numpy_step A c fractal i st)"
proof -
  have "numpy_inv c fractal n m cf
           (\<lambda>r q. if sumsq_gt_4 A (square_plus A (zf r q) (cf r q)) then complex_2 A
                   else square_plus A (zf r q) (cf r q))
           (\<lambda>r q. if sumsq_gt_4 A (square_plus A (zf r q) (cf r q)) \<and> ff r q = 20 then int i
                   else ff r q)
           (record_and_clamp A fractal i (recur A c st))"
    using recur_inv[OF assms] by (intro record_and_clamp_inv)
  then show ?thesis
    by (simp add: numpy_step_def Let_def)
qed

lemma numpy_loop_inv:
  assumes "numpy_inv c fractal n m cf zf ff st"
  shows "numpy_inv c fractal n m cf
           (\<lambda>r q. fst (fold (cell_step A (cf r q)) idxs (zf r q, ff r q)))
           (\<lambda>r q. snd (fold (cell_step A (cf r q)) idxs (zf r q, ff r q)))
           (numpy_loop A c fractal idxs st)"
  using assms
proof (induction idxs arbitrary: zf ff st)
  case Nil
  then show ?case by (simp add: numpy_loop_def)
next
  case (Cons i idxs)
  from Cons.IH[OF numpy_step_inv[OF Cons.prems, of A i]] show ?case
    by (simp add: numpy_loop_def)
qed

lemma cell_step_done: "f \<noteq> 20 \<Longrightarrow> snd (fold (cell_step A c) idxs (z, f)) = f"
  by (induction idxs arbitrary: z) (simp_all add: Let_def)

lemma cell_step_iterate:
  assumes "\<forall>i\<in>set idxs. i < 20"
  shows "snd (fold (cell_step A c) idxs (z, 20)) =
           (case iterate (A\<lparr>abs_gt_2 := sumsq_gt_4 A\<rparr>) c z idxs of None \<Rightarrow> 20 | Some i \<Rightarrow> int i)"
  using assms
proof (induction idxs arbitrary: z)
  case Nil
  then show ?case by simp
next
  case (Cons i idxs)
  show ?case
  proof (cases "sumsq_gt_4 A (square_plus A z c)")
    case True
    from Cons.prems have "int i \<noteq> 20" by simp
    with True show ?thesis
      by (simp add: cell_step_done)
  next
    case False
    with Cons show ?thesis
      by simp
  qed
qed

lemma field_numpy:
  "field_of (mandelbrot_numpy A s height width) =
     tab (nat \<bar>height\<bar>) (nat \<bar>width\<bar>)
       (\<lambda>r q. escape_time (A\<lparr>abs_gt_2 := sumsq_gt_4 A\<rparr>) (grid_point A height width r q))"
proof -
  let ?n = "nat \<bar>height\<bar>" and ?m = "nat \<bar>width\<bar>"
  let ?cf = "grid_point A height width"
  obtain c fractal s2 where ini: "numpy_init A s height width = (c, fractal, s2)"
    by (cases "numpy_init A s height width") auto
  obtain z' s3 where loop: "numpy_loop A c fractal [0..<20] (c, s2) = (z', s3)"
    by (cases "numpy_loop A c fractal [0..<20] (c, s2)") auto
  have res: "mandelbrot_numpy A s height width = (fractal, s3)"
    by (simp add: mandelbrot_numpy_def ini loop)
  from ini have "numpy_inv c fractal ?n ?m ?cf ?cf (\<lambda>r q. 20) (c, s2)"
    by (auto simp: numpy_init_def numpy_inv_def new_complex_def new_int_def
        coordinates_grid full_shape_tab)
  from numpy_loop_inv[OF this, of A "[0..<20]"] loop
  have "int_arrays s3 fractal =
          tab ?n ?m (\<lambda>r q. snd (fold (cell_step A (?cf r q)) [0..<20] (?cf r q, 20)))"
    by (simp add: numpy_inv_def)
  also have "\<dots> = tab ?n ?m (\<lambda>r q. escape_time (A\<lparr>abs_gt_2 := sumsq_gt_4 A\<rparr>) (?cf r q))"
    by (simp add: cell_step_iterate escape_time_def)
  finally show ?thesis
    by (simp add: res field_of_def)
qed

section \<open>Escape times and orbits\<close>

lemma iterate_orbit:
  "iterate A c (orbit A c k) [k..<n] =
     (if \<exists>i. k \<le> i \<and> i < n \<and> abs_gt_2 A (orbit A c (Suc i))
      then Some (LEAST i. k \<le> i \<and> abs_gt_2 A (orbit A c (Suc i))) else None)"
proof (induction "n - k" arbitrary: k)
  case 0
  then show ?case by auto
next
  case (Suc d)
  then have kn: "k < n" and d: "d = n - Suc k" by simp_all
  have upt: "[k..<n] = k # [Suc k..<n]"
    using kn by (simp add: upt_conv_Cons)
  show ?case
  proof (cases "abs_gt_2 A (orbit A c (Suc k))")
    case True
    then have "(LEAST i. k \<le> i \<and> abs_gt_2 A (orbit A c (Suc i))) = k"
      by (intro Least_equality) auto
    with True kn show ?thesis
      by (auto simp: upt)
  next
    case False
    then have same: "\<And>i. (k \<le> i \<and> abs_gt_2 A (orbit A c (Suc i)))
                       = (Suc k \<le> i \<and> abs_gt_2 A (orbit A c (Suc i)))"
      by (metis Suc_leI le_neq_implies_less Suc_leD)
    then have ex: "(\<exists>i. k \<le> i \<and> i < n \<and> abs_gt_2 A (orbit A c (Suc i)))
                 = (\<exists>i. Suc k \<le> i \<and> i < n \<and> abs_gt_2 A (orbit A c (Suc i)))"
      by blast
    have least: "(LEAST i. k \<le> i \<and> abs_gt_2 A (orbit A c (Suc i)))
                 = (LEAST i. Suc k \<le> i \<and> abs_gt_2 A (orbit A c (Suc i)))"
      by (simp only: same)
    have "iterate A c (orbit A c k) [k..<n] = iterate A c (orbit A c (Suc k)) [Suc k..<n]"
      using False by (simp add: upt)
    also have "\<dots> = (if \<exists>i. Suc k \<le> i \<and> i < n \<and> abs_gt_2 A (orbit A c (Suc i))
      then Some (LEAST i. Suc k \<le> i \<and> abs_gt_2 A (orbit A c (Suc i))) else None)"
      using Suc.hyps(1)[OF d] .
    also have "\<dots> = (if \<exists>i. k \<le> i \<and> i < n \<and> abs_gt_2 A (orbit A c (Suc i))
      then Some (LEAST i. k \<le> i \<and> abs_gt_2 A (orbit A c (Suc i))) else None)"
      by (simp only: ex least)
    finally show ?thesis .
  qed
qed

lemma escape_time_orbit:
  "escape_time A c =
     (if \<exists>i<20. abs_gt_2 A (orbit A c (Suc i))
      then int (LEAST i. abs_gt_2 A (orbit A c (Suc i))) else 20)"
proof -
  have "iterate A c c [0..<20] =
     (if \<exists>i<20. abs_gt_2 A (orbit A c (Suc i))
      then Some (LEAST i. abs_gt_2 A (orbit A c (Suc i))) else None)"
    using iterate_orbit[of A c 0 20] by (simp del: orbit.simps(2))
  then show ?thesis
    unfolding escape_time_def
    by (cases "\<exists>i<20. abs_gt_2 A (orbit A c (Suc i))") (auto simp del: orbit.simps(2))
qed

lemma iterate_index: "iterate A c z idxs = Some i \<Longrightarrow> i \<in> set idxs"
  by (induction idxs arbitrary: z) (auto simp: Let_def split: if_splits)

lemma escape_time_range: "0 \<le> escape_time A c \<and> escape_time A c \<le> 20"
proof (cases "iterate A c c [0..<20]")
  case None
  then show ?thesis by (simp add: escape_time_def)
next
  case (Some i)
  from iterate_index[OF this] have "i < 20" by simp
  with Some show ?thesis by (simp add: escape_time_def)
qed

lemma cell_tab:
  assumes "row \<in> set (tab n m g)" "v \<in> set row"
  shows "\<exists>r<n. \<exists>q<m. v = g r q"
  using assms by (fastforce simp: tab_def)

lemma python_cells:
  assumes "0 < height" "0 < width" "r < nat height" "q < nat width"
  shows "get2 (field_of (mandelbrot_python A s height width)) r q
           = escape_time A (grid_point A height width r q)"
  using assms by (simp add: field_python get2_tab)

lemma numpy_cells:
  assumes "r < nat \<bar>height\<bar>" "q < nat \<bar>width\<bar>"
  shows "get2 (field_of (mandelbrot_numpy A s height width)) r q
           = escape_time (A\<lparr>abs_gt_2 := sumsq_gt_4 A\<rparr>) (grid_point A height width r q)"
  using assms by (simp add: field_numpy get2_tab)

lemma coordinates_cells:
  assumes "r < nat \<bar>height\<bar>" "q < nat \<bar>width\<bar>"
  shows "get2 (coordinates A height width) r q = grid_point A height width r q"
  using assms by (simp add: coordinates_grid get2_tab)

section \<open>Exact arithmetic\<close>

lemma exact_tests_agree: "abs_gt_2 exact z = sumsq_gt_4 exact z"
proof -
  have "(2 < sqrt ((Re z)\<^sup>2 + (Im z)\<^sup>2)) = (sqrt 4 < sqrt ((Re z)\<^sup>2 + (Im z)\<^sup>2))"
    by simp
  also have "\<dots> = (4 < (Re z)\<^sup>2 + (Im z)\<^sup>2)"
    by (rule real_sqrt_less_iff)
  finally show ?thesis
    by (simp add: exact_def cmod_def)
qed

lemma exact_test_swap: "exact\<lparr>abs_gt_2 := sumsq_gt_4 exact\<rparr> = exact"
proof -
  have "abs_gt_2 exact = sumsq_gt_4 exact"
    by (rule ext) (rule exact_tests_agree)
  then show ?thesis by simp
qed

lemma grid_point_first: "grid_point exact 1 1 0 0 = Complex (-3/2) (-1)"
  by (simp add: grid_point_def exact_def complex_eq_iff)

lemma agree_when_tests_agree:
  assumes "\<forall>z. abs_gt_2 A z = sumsq_gt_4 A z" "0 < height" "0 < width"
  shows "field_of (mandelbrot_python A s height width) = field_of (mandelbrot_numpy A s' height width)"
proof -
  have "abs_gt_2 A = sumsq_gt_4 A"
    using assms(1) by (intro ext) simp
  then have "A\<lparr>abs_gt_2 := sumsq_gt_4 A\<rparr> = A" by simp
  moreover have "nat \<bar>height\<bar> = nat height" "nat \<bar>width\<bar> = nat width"
    using assms by simp_all
  ultimately show ?thesis
    by (simp add: field_python field_numpy cong: tab_cong)
qed

lemma exact_sample:
  assumes "2 \<le> n"
  shows "ogrid_sample exact a b n k = a + real k * (b - a) / real (n - 1)"
proof -
  have "real n - 1 = real (n - 1)"
    using assms by (simp add: of_nat_diff)
  with assms show ?thesis
    by (simp add: exact_def)
qed

lemma exact_add_times_1j: "add_times_1j exact x y = Complex x y"
  by (simp add: exact_def complex_eq_iff)

lemma exact_grid_point:
  assumes "1 < height" "1 < width"
  shows "grid_point exact height width r q =
           Complex (- 3 / 2 + real q * (3 / 2) / real (nat width - 1))
                   (- 1 + real r * 1 / real (nat height - 1))"
proof -
  have abs: "nat \<bar>height\<bar> = nat height" "nat \<bar>width\<bar> = nat width"
    using assms by simp_all
  have two: "2 \<le> nat height" "2 \<le> nat width"
    using assms by simp_all
  have "grid_point exact height width r q =
          Complex (- 1.5 + real q * (0 - (- 1.5)) / real (nat width - 1))
                  (- 1 + real r * (0 - (- 1)) / real (nat height - 1))"
    unfolding grid_point_def abs exact_add_times_1j exact_sample[OF two(1)] exact_sample[OF two(2)]
    by (rule refl)
  also have "\<dots> = Complex (- 3 / 2 + real q * (3 / 2) / real (nat width - 1))
                   (- 1 + real r * 1 / real (nat height - 1))"
    by simp
  finally show ?thesis .
qed

lemma last_sample: "d \<noteq> 0 \<Longrightarrow> - a + d * a / d = (0::real)"
  by simp

lemma orbit_zero: "orbit exact 0 k = 0"
  by (induction k) (simp_all add: exact_def)

lemma iterate_zero: "iterate exact 0 0 idxs = None"
  by (induction idxs) (simp_all add: exact_def)

lemma shape_tab: "0 < n \<Longrightarrow> shape (tab n m g) = (n, m)"
  by (cases n) (simp_all add: shape_def tab_def upt_conv_Cons del: upt_Suc)

section \<open>The states of the loop of mandelbrot_numpy\<close>

lemma numpy_init_inv:
  assumes "numpy_init A s height width = (c, fractal, s2)"
  shows "numpy_inv c fractal (nat \<bar>height\<bar>) (nat \<bar>width\<bar>)
           (grid_point A height width) (grid_point A height width) (\<lambda>r q. 20) (c, s2)"
  using assms
  by (auto simp: numpy_init_def numpy_inv_def new_complex_def new_int_def
        coordinates_grid full_shape_tab)

lemma numpy_before_pass:
  assumes "numpy_init A s height width = (c, fractal, s2)"
  shows "numpy_inv c fractal (nat \<bar>height\<bar>) (nat \<bar>width\<bar>) (grid_point A height width)
           (\<lambda>r q. fst (fold (cell_step A (grid_point A height width r q)) idxs
                          (grid_point A height width r q, 20)))
           (\<lambda>r q. snd (fold (cell_step A (grid_point A height width r q)) idxs
                          (grid_point A height width r q, 20)))
           (numpy_loop A c fractal idxs (c, s2))"
  by (rule numpy_loop_inv[OF numpy_init_inv[OF assms]])

lemma numpy_inv_c:
  "numpy_inv c fractal n m cf zf ff st \<Longrightarrow> complex_arrays (snd st) c = tab n m cf"
  by (cases st) (simp add: numpy_inv_def)

lemma numpy_result:
  assumes "numpy_init A s height width = (c, fractal, s2)"
  shows "snd (mandelbrot_numpy A s height width) = snd (numpy_loop A c fractal [0..<20] (c, s2))"
  using assms by (simp add: mandelbrot_numpy_def split: prod.splits)

lemma tab_0: "tab 0 m g = []"
  by (simp add: tab_def)

lemma tab_1_1: "tab (Suc 0) (Suc 0) g = [[g 0 0]]"
  by (simp add: tab_def)

lemma escape_first:
  "abs_gt_2 A (square_plus A c c) \<Longrightarrow> escape_time A c = 0"
  by (simp add: escape_time_def upt_conv_Cons del: upt_Suc)

lemma grid_point_minus: "grid_point exact 1 (- 1) 0 0 = Complex (- 3 / 2) (- 1)"
  by (simp add: grid_point_def exact_def complex_eq_iff)

lemma numpy_inv_cells:
  assumes "numpy_inv c fractal n m cf zf ff st" "r < n" "q < m"
  shows "z_cell st r q = zf r q" "fractal_cell fractal st r q = ff r q"
    "get2 (complex_arrays (snd st) c) r q = cf r q"
  using assms
  by (cases st; simp add: numpy_inv_def z_cell_def fractal_cell_def get2_tab)+

lemma diverged_mask_cell:
  assumes "numpy_inv c fractal n m cf zf ff st" "r < n" "q < m"
  shows "get2 (diverged_mask A st) r q = sumsq_gt_4 A (z_cell st r q)"
  using assms
  by (cases st) (simp add: numpy_inv_def diverged_mask_def elementwise_tab get2_tab z_cell_def)

lemma init_1x1:
  "numpy_init exact empty_store 1 1 = (0, 1, snd (snd (numpy_init exact empty_store 1 1)))"
  by (simp add: numpy_init_def new_complex_def new_int_def empty_store_def)

lemma first_pass_1x1:
  "fractal_cell 1 (numpy_loop exact 0 1 [0]
      (0, snd (snd (numpy_init exact empty_store 1 1)))) 0 0 = 0"
  "z_cell (numpy_loop exact 0 1 [0]
      (0, snd (snd (numpy_init exact empty_store 1 1)))) 0 0 = 2"
  "z_cell (recur exact 0 (numpy_loop exact 0 1 [0]
      (0, snd (snd (numpy_init exact empty_store 1 1))))) 0 0 = Complex (5 / 2) (- 1)"
  "get2 (diverged_mask exact (recur exact 0 (numpy_loop exact 0 1 [0]
      (0, snd (snd (numpy_init exact empty_store 1 1)))))) 0 0"
proof -
  let ?s2 = "snd (snd (numpy_init exact empty_store 1 1))"
  let ?st = "numpy_loop exact 0 1 [0] (0, ?s2)"
  let ?c = "Complex (- (3 / 2)) (- 1)"
  have step: "cell_step exact ?c 0 (?c, 20) = (2, 0)"
    by (simp add: exact_def power2_eq_square)
  note inv = numpy_before_pass[OF init_1x1, of "[0]"]
  note mid = recur_inv(1)[OF inv, of exact]
  show "fractal_cell 1 ?st 0 0 = 0" "z_cell ?st 0 0 = 2"
    using numpy_inv_cells(1,2)[OF inv, of 0 0]
    by (simp_all add: grid_point_first step del: cell_step.simps)
  show z: "z_cell (recur exact 0 ?st) 0 0 = Complex (5 / 2) (- 1)"
    using numpy_inv_cells(1)[OF mid, of 0 0]
    by (simp add: grid_point_first step del: cell_step.simps) (simp add: exact_def complex_eq_iff)
  have dm: "get2 (diverged_mask exact (recur exact 0 ?st)) 0 0
              = sumsq_gt_4 exact (z_cell (recur exact 0 ?st) 0 0)"
    by (rule diverged_mask_cell[OF mid]) simp_all
  have "sumsq_gt_4 exact (Complex (5 / 2) (- 1))"
    by (simp add: exact_def power2_eq_square)
  then show "get2 (diverged_mask exact (recur exact 0 ?st)) 0 0"
    unfolding dm z .
qed

lemma cell_step_pinned:
  assumes "sumsq_gt_4 A (square_plus A (complex_2 A) c)"
    and "f \<noteq> 20 \<longrightarrow> z = complex_2 A"
  shows "snd (fold (cell_step A c) idxs (z, f)) \<noteq> 20
           \<longrightarrow> fst (fold (cell_step A c) idxs (z, f)) = complex_2 A"
  using assms(2)
proof (induction idxs arbitrary: z f)
  case Nil
  then show ?case by simp
next
  case (Cons i idxs)
  obtain z' f' where st: "cell_step A c i (z, f) = (z', f')"
    by (cases "cell_step A c i (z, f)") auto
  have "f' \<noteq> 20 \<longrightarrow> z' = complex_2 A"
    using st Cons.prems assms(1) by (auto simp: Let_def split: if_splits)
  from Cons.IH[OF this] show ?case
    by (simp add: st del: cell_step.simps)
qed

lemma exact_sample_lower:
  assumes "k < n"
  shows "- (3 / 2) \<le> ogrid_sample exact (- 1.5) 0 n k"
proof (cases "n = 1")
  case True
  with assms show ?thesis by (simp add: exact_def)
next
  case False
  with assms have "2 \<le> n" by simp
  have "0 \<le> real k * (0 - (- 1.5)) / real (n - 1)"
    by simp
  then show ?thesis
    unfolding exact_sample[OF \<open>2 \<le> n\<close>] by simp
qed

lemma far_from_origin:
  fixes x y :: real
  assumes "5 / 2 \<le> x"
  shows "4 < x\<^sup>2 + y\<^sup>2"
proof -
  have "(5 / 2)\<^sup>2 \<le> x\<^sup>2"
    using assms by (intro power_mono) simp_all
  then have "25 / 4 \<le> x\<^sup>2"
    by (simp add: power2_eq_square)
  then show ?thesis
    using zero_le_power2[of y] by linarith
qed

lemma exact_reclamp:
  assumes "q < nat \<bar>width\<bar>"
  shows "sumsq_gt_4 exact (square_plus exact (complex_2 exact) (grid_point exact height width r q))"
proof -
  let ?x = "ogrid_sample exact (- 1.5) 0 (nat \<bar>width\<bar>) q"
  let ?y = "ogrid_sample exact (- 1) 0 (nat \<bar>height\<bar>) r"
  have "5 / 2 \<le> 4 + ?x"
    using exact_sample_lower[OF assms] by simp
  then have "4 < (4 + ?x)\<^sup>2 + ?y\<^sup>2"
    by (rule far_from_origin)
  moreover have "square_plus exact (complex_2 exact) (grid_point exact height width r q)
                   = Complex (4 + ?x) ?y"
    by (simp add: grid_point_def exact_add_times_1j) (simp add: exact_def complex_eq_iff)
  ultimately show ?thesis
    by (simp add: exact_def)
qed

section \<open>Exact arithmetic: the grid and the two strategies\<close>

lemma exact_grid_linear:
  assumes "1 < height" "1 < width" "row < nat height" "col < nat width"
  shows "get2 (coordinates exact height width) row col =
           Complex (- 3 / 2 + real col * (3 / 2) / real (nat width - 1))
                   (- 1 + real row * 1 / real (nat height - 1)) \<and>
         Im (get2 (coordinates exact height width) 0 col) = - 1 \<and>
         Im (get2 (coordinates exact height width) (nat height - 1) col) = 0 \<and>
         Re (get2 (coordinates exact height width) row 0) = - 3 / 2 \<and>
         Re (get2 (coordinates exact height width) row (nat width - 1)) = 0"
proof -
  have abs: "nat \<bar>height\<bar> = nat height" "nat \<bar>width\<bar> = nat width"
    using assms by simp_all
  have nz: "real (nat height - 1) \<noteq> 0" "real (nat width - 1) \<noteq> 0"
    using assms by simp_all
  have cell: "get2 (coordinates exact height width) r q =
           Complex (- 3 / 2 + real q * (3 / 2) / real (nat width - 1))
                   (- 1 + real r * 1 / real (nat height - 1))"
    if "r < nat height" "q < nat width" for r q
    using that assms(1,2) by (simp add: coordinates_cells abs exact_grid_point)
  have idx: "0 < nat height" "0 < nat width" "nat height - 1 < nat height" "nat width - 1 < nat width"
    using assms by simp_all
  have last: "- (3 / 2) + real (nat width - 1) * (3 / 2) / real (nat width - 1) = 0"
    "- 1 + real (nat height - 1) * 1 / real (nat height - 1) = 0"
    by (rule last_sample[OF nz(2)], rule last_sample[OF nz(1)])
  have "Im (get2 (coordinates exact height width) 0 col) = - 1"
    using idx assms(4) by (simp add: cell)
  moreover have "Im (get2 (coordinates exact height width) (nat height - 1) col) = 0"
    using last by (simp only: cell[OF idx(3) assms(4)] complex.sel minus_divide_left)
  moreover have "Re (get2 (coordinates exact height width) row 0) = - 3 / 2"
    using idx assms(3) by (simp add: cell)
  moreover have "Re (get2 (coordinates exact height width) row (nat width - 1)) = 0"
    using last by (simp only: cell[OF assms(3) idx(4)] complex.sel minus_divide_left)
  ultimately show ?thesis
    using cell[OF assms(3,4)] by simp
qed

lemma exact_last_cell:
  assumes "2 \<le> height" "2 \<le> width"
  shows "get2 (coordinates exact height width) (nat height - 1) (nat width - 1) = 0 \<and>
         orbit exact (get2 (coordinates exact height width) (nat height - 1) (nat width - 1)) k = 0 \<and>
         get2 (field_of (mandelbrot_python exact s height width)) (nat height - 1) (nat width - 1) = 20"
proof -
  have pos: "0 < height" "0 < width" and gt: "1 < height" "1 < width"
    using assms by simp_all
  have idx: "nat height - 1 < nat height" "nat width - 1 < nat width"
    using assms by simp_all
  have nz: "real (nat height - 1) \<noteq> 0" "real (nat width - 1) \<noteq> 0"
    using assms by simp_all
  have "- (3 / 2) + real (nat width - 1) * (3 / 2) / real (nat width - 1) = 0"
    and "- 1 + real (nat height - 1) * 1 / real (nat height - 1) = 0"
    by (rule last_sample[OF nz(2)], rule last_sample[OF nz(1)])
  then have zero: "grid_point exact height width (nat height - 1) (nat width - 1) = 0"
    unfolding exact_grid_point[OF gt]
    by (simp only: complex_eq_iff complex.sel zero_complex.sel minus_divide_left)
  have "nat height - 1 < nat \<bar>height\<bar>" "nat width - 1 < nat \<bar>width\<bar>"
    using assms by simp_all
  then have c: "get2 (coordinates exact height width) (nat height - 1) (nat width - 1) = 0"
    by (simp only: coordinates_cells zero)
  moreover have "get2 (field_of (mandelbrot_python exact s height width))
                   (nat height - 1) (nat width - 1) = 20"
    unfolding python_cells[OF pos idx] zero by (simp add: escape_time_def iterate_zero)
  ultimately show ?thesis
    by (simp only: orbit_zero simp_thms)
qed

lemma exact_strategies_agree:
  assumes "0 < height" "0 < width"
  shows "field_of (mandelbrot_python exact s height width)
           = field_of (mandelbrot_numpy exact s' height width)"
  using assms by (intro agree_when_tests_agree) (simp_all add: exact_tests_agree)

section \<open>Rounding to float64\<close>

lemmas fl_eval = fl_def fl_pos_def scale_up.simps scale_down.simps rne_def

lemma sample_50: "ogrid_sample float64 (- 1) 0 50 49 = - (1 / 2 ^ 53)"
  by (simp add: float64_def fl_eval)

lemma sample_48: "ogrid_sample float64 (- 1.5) 0 48 47 = - (1 / 2 ^ 52)"
  by (simp add: float64_def fl_eval)

lemma sample_4_1: "ogrid_sample float64 (- 1) 0 4 1 = - (6004799503160662 / 2 ^ 53)"
  by (simp add: float64_def fl_eval)

lemma scale_up_spec:
  assumes "scale_up y f = (y', f')" "0 < y" "0 < f"
  shows "y' * f' = y * f \<and> 2 ^ 52 \<le> y' \<and> 0 < f' \<and> (y < 2 ^ 52 \<longrightarrow> y' < 2 ^ 53)"
  using assms
proof (induction y f rule: scale_up.induct)
  case (1 y f)
  show ?case
  proof (cases "y < 2 ^ 52")
    case True
    with "1.prems" have rec: "scale_up (y * 2) (f / 2) = (y', f')"
      by (simp add: scale_up.simps[of y f])
    have "y' * f' = y * 2 * (f / 2) \<and> 2 ^ 52 \<le> y' \<and> 0 < f' \<and> (y * 2 < 2 ^ 52 \<longrightarrow> y' < 2 ^ 53)"
      using "1.IH"[OF _ rec] True "1.prems" by simp
    moreover have "y' = y * 2 \<and> f' = f / 2" if "\<not> y * 2 < 2 ^ 52"
      using rec that "1.prems" by (simp add: scale_up.simps[of "y * 2" "f / 2"])
    ultimately show ?thesis
      using True by (cases "y * 2 < 2 ^ 52") auto
  next
    case False
    with "1.prems" show ?thesis
      by (simp add: scale_up.simps[of y f])
  qed
qed

lemma scale_down_spec:
  assumes "scale_down y f = (y', f')" "2 ^ 52 \<le> y" "0 < f"
  shows "y' * f' = y * f \<and> 2 ^ 52 \<le> y' \<and> y' < 2 ^ 53 \<and> 0 < f'"
  using assms
proof (induction y f rule: scale_down.induct)
  case (1 y f)
  show ?case
  proof (cases "2 ^ 53 \<le> y")
    case True
    with "1.prems" have rec: "scale_down (y / 2) (f * 2) = (y', f')"
      by (simp add: scale_down.simps[of y f])
    have "2 ^ 52 \<le> y / 2" using True by simp
    from "1.IH"[OF True rec this] "1.prems" show ?thesis by simp
  next
    case False
    with "1.prems" show ?thesis
      by (simp add: scale_down.simps[of y f])
  qed
qed

lemma rne_error: "\<bar>of_int (rne y) - y\<bar> \<le> 1 / 2"
proof -
  have "of_int \<lfloor>y\<rfloor> \<le> y" "y < of_int \<lfloor>y\<rfloor> + 1"
    by linarith+
  then show ?thesis
    by (auto simp: rne_def Let_def)
qed

lemma fl_pos_error:
  assumes "0 < x"
  shows "\<bar>fl_pos x - x\<bar> \<le> x / 2 ^ 53"
proof -
  obtain y f where up: "scale_up x 1 = (y, f)"
    by (cases "scale_up x 1") auto
  obtain y' f' where down: "scale_down y f = (y', f')"
    by (cases "scale_down y f") auto
  from scale_up_spec[OF up assms] have 1: "y * f = x" "2 ^ 52 \<le> y" "0 < f"
    by simp_all
  from scale_down_spec[OF down 1(2,3)] have 2: "y' * f' = x" "2 ^ 52 \<le> y'" "0 < f'"
    using 1(1) by simp_all
  have "fl_pos x - x = (of_int (rne y') - y') * f'"
    using 2(1) by (simp add: fl_pos_def up down algebra_simps)
  then have "\<bar>fl_pos x - x\<bar> = \<bar>of_int (rne y') - y'\<bar> * f'"
    using 2(3) by (simp add: abs_mult)
  also have "\<dots> \<le> (1 / 2) * f'"
    using rne_error[of y'] 2(3) by (intro mult_right_mono) simp_all
  also have "\<dots> \<le> (y' / 2 ^ 53) * f'"
    using 2(2,3) by (intro mult_right_mono) simp_all
  also have "\<dots> = x / 2 ^ 53"
    using 2(1) by simp
  finally show ?thesis .
qed

lemma fl_zero: "fl 0 = 0"
  by (simp add: fl_eval)

lemma fl_error: "\<bar>fl x - x\<bar> \<le> \<bar>x\<bar> / 2 ^ 53"
proof -
  consider "x < 0" | "x = 0" | "0 < x" by linarith
  then show ?thesis
  proof cases
    case 1
    then have "\<bar>fl_pos (- x) - (- x)\<bar> \<le> (- x) / 2 ^ 53"
      by (intro fl_pos_error) simp
    with 1 show ?thesis by (simp add: fl_def abs_minus_commute)
  next
    case 2
    then show ?thesis by (simp add: fl_zero)
  next
    case 3
    with fl_pos_error[OF 3] show ?thesis by (simp add: fl_def)
  qed
qed

lemma fl_abs: "\<bar>fl x\<bar> \<le> \<bar>x\<bar> * (1 + 1 / 2 ^ 53)"
proof -
  have "\<bar>fl x\<bar> \<le> \<bar>x\<bar> + \<bar>fl x - x\<bar>" by linarith
  also have "\<dots> \<le> \<bar>x\<bar> + \<bar>x\<bar> / 2 ^ 53" using fl_error[of x] by linarith
  finally show ?thesis by (simp add: algebra_simps)
qed

lemma fl_abs2: "\<bar>fl x\<bar> \<le> 2 * \<bar>x\<bar>"
proof -
  have "\<bar>x\<bar> * (1 + 1 / 2 ^ 53) \<le> \<bar>x\<bar> * 2"
    by (intro mult_left_mono) simp_all
  with fl_abs[of x] show ?thesis by linarith
qed

lemma fl_bound: "\<bar>x\<bar> \<le> b \<Longrightarrow> \<bar>fl x\<bar> \<le> 2 * b"
  using fl_abs2[of x] by linarith

lemma fl_pos_nat:
  assumes "1 \<le> m"
  shows "0 < fl (real m)"
proof -
  have "\<bar>fl (real m) - real m\<bar> \<le> real m / 2 ^ 53"
    using fl_error[of "real m"] by simp
  moreover have "real m / 2 ^ 53 < real m"
    using assms by simp
  ultimately show ?thesis by linarith
qed

text \<open>The last sample of an axis from \<open>- s\<close> to 0.\<close>

lemma last_sample_bound:
  assumes "2 \<le> n" "0 < s" "s \<le> 3 / 2" "fl s = s"
  shows "\<bar>ogrid_sample float64 (- s) 0 n (n - 1)\<bar> \<le> 1 / 2 ^ 51"
proof -
  define u :: real where "u = 1 / 2 ^ 53"
  define F where "F = fl (real (n - 1))"
  define q where "q = s / F"
  define p0 where "p0 = F * fl q"
  have u: "0 < u" "u \<le> 1" by (simp_all add: u_def)
  have F: "0 < F"
    unfolding F_def using assms(1) by (intro fl_pos_nat) simp
  have n1: "real n - 1 = real (n - 1)" "n \<noteq> 1"
    using assms(1) by (simp_all add: of_nat_diff)
  have "ogrid_sample float64 (- s) 0 n (n - 1)
          = fl (fl (fl (real (n - 1)) * fl (fl s / fl (real n - 1))) + (- s))"
    using n1(2) by (simp add: float64_def)
  then have sample: "ogrid_sample float64 (- s) 0 n (n - 1) = fl (fl p0 + (- s))"
    unfolding n1(1) assms(4) p0_def q_def F_def .
  have q: "0 < q" using F assms(2) by (simp add: q_def)
  have "\<bar>fl q - q\<bar> \<le> q * u"
    using fl_error[of q] q by (simp add: u_def)
  then have "F * \<bar>fl q - q\<bar> \<le> F * (q * u)"
    using F by (intro mult_left_mono) simp_all
  moreover have "F * q = s" using F by (simp add: q_def)
  moreover have "\<bar>p0 - s\<bar> = F * \<bar>fl q - q\<bar>"
  proof -
    have "p0 - s = F * (fl q - q)"
      using \<open>F * q = s\<close> by (simp add: p0_def algebra_simps)
    then show ?thesis using F by (simp add: abs_mult)
  qed
  ultimately have e0: "\<bar>p0 - s\<bar> \<le> s * u"
    by (simp add: mult.assoc[symmetric])
  then have p0: "\<bar>p0\<bar> \<le> s + s * u" using assms(2) by linarith
  have "\<bar>fl p0 - p0\<bar> \<le> \<bar>p0\<bar> * u"
    using fl_error[of p0] by (simp add: u_def)
  also have "\<dots> \<le> (s + s * u) * u"
    using p0 u by (intro mult_right_mono) simp_all
  finally have e1: "\<bar>fl p0 - p0\<bar> \<le> (s + s * u) * u" .
  have "\<bar>fl p0 + (- s)\<bar> \<le> \<bar>fl p0 - p0\<bar> + \<bar>p0 - s\<bar>" by linarith
  also have "\<dots> \<le> (s + s * u) * u + s * u" using e0 e1 by linarith
  also have "\<dots> = s * (u * (2 + u))" by (simp add: algebra_simps)
  also have "\<dots> \<le> (3 / 2) * (u * (2 + u))"
    using assms(3) u by (intro mult_right_mono) simp_all
  finally have d: "\<bar>fl p0 + (- s)\<bar> \<le> (3 / 2) * (u * (2 + u))" .
  have "\<bar>fl (fl p0 + (- s))\<bar> \<le> \<bar>fl p0 + (- s)\<bar> * (1 + 1 / 2 ^ 53)"
    by (rule fl_abs)
  also have "\<dots> \<le> ((3 / 2) * (u * (2 + u))) * (1 + 1 / 2 ^ 53)"
    using d by (intro mult_right_mono) simp_all
  also have "\<dots> \<le> 1 / 2 ^ 51"
    by (simp add: u_def)
  finally show ?thesis
    by (simp only: sample)
qed

section \<open>The origin in float64\<close>

lemma float64_square_plus_small:
  assumes "\<bar>Re z\<bar> \<le> 1 / 2 ^ 49" "\<bar>Im z\<bar> \<le> 1 / 2 ^ 49"
    and "\<bar>Re c\<bar> \<le> 1 / 2 ^ 51" "\<bar>Im c\<bar> \<le> 1 / 2 ^ 51"
  shows "\<bar>Re (square_plus float64 z c)\<bar> \<le> 1 / 2 ^ 49"
    and "\<bar>Im (square_plus float64 z c)\<bar> \<le> 1 / 2 ^ 49"
proof -
  define B :: real where "B = 1 / 2 ^ 49"
  have B: "0 \<le> B" by (simp add: B_def)
  have prod: "\<bar>x * y\<bar> \<le> B * B" if "\<bar>x\<bar> \<le> B" "\<bar>y\<bar> \<le> B" for x y :: real
    using that by (simp add: abs_mult mult_mono)
  have z: "\<bar>Re z\<bar> \<le> B" "\<bar>Im z\<bar> \<le> B"
    using assms(1,2) by (simp_all add: B_def)
  have part: "\<bar>fl (fl x + g)\<bar> \<le> 1 / 2 ^ 49"
    if "\<bar>x\<bar> \<le> 4 * (B * B)" "\<bar>g\<bar> \<le> 1 / 2 ^ 51" for x g :: real
  proof -
    have "\<bar>fl x\<bar> \<le> 2 * (4 * (B * B))"
      using that(1) by (rule fl_bound)
    then have "\<bar>fl x + g\<bar> \<le> 2 * (4 * (B * B)) + 1 / 2 ^ 51"
      using that(2) by linarith
    then have "\<bar>fl (fl x + g)\<bar> \<le> 2 * (2 * (4 * (B * B)) + 1 / 2 ^ 51)"
      by (rule fl_bound)
    also have "\<dots> \<le> 1 / 2 ^ 49" by (simp add: B_def)
    finally show ?thesis .
  qed
  have two: "\<bar>fl (a * b)\<bar> \<le> 2 * (B * B)"
    if "\<bar>a\<bar> \<le> B" "\<bar>b\<bar> \<le> B" for a b :: real
    using that by (intro fl_bound prod)
  have "\<bar>fl (Re z * Re z) - fl (Im z * Im z)\<bar> \<le> 4 * (B * B)"
    using two[OF z(1) z(1)] two[OF z(2) z(2)] by linarith
  then have re: "\<bar>fl (fl (fl (Re z * Re z) - fl (Im z * Im z)) + Re c)\<bar> \<le> 1 / 2 ^ 49"
    using assms(3) by (rule part)
  have "\<bar>fl (Re z * Im z) + fl (Im z * Re z)\<bar> \<le> 4 * (B * B)"
    using two[OF z(1) z(2)] two[OF z(2) z(1)] by linarith
  then have im: "\<bar>fl (fl (fl (Re z * Im z) + fl (Im z * Re z)) + Im c)\<bar> \<le> 1 / 2 ^ 49"
    using assms(4) by (rule part)
  have "Re (square_plus float64 z c) = fl (fl (fl (Re z * Re z) - fl (Im z * Im z)) + Re c)"
    "Im (square_plus float64 z c) = fl (fl (fl (Re z * Im z) + fl (Im z * Re z)) + Im c)"
    by (simp_all add: float64_def)
  then show "\<bar>Re (square_plus float64 z c)\<bar> \<le> 1 / 2 ^ 49"
    and "\<bar>Im (square_plus float64 z c)\<bar> \<le> 1 / 2 ^ 49"
    using re im by simp_all
qed

lemma float64_orbit_small:
  assumes "\<bar>Re c\<bar> \<le> 1 / 2 ^ 51" "\<bar>Im c\<bar> \<le> 1 / 2 ^ 51"
  shows "\<bar>Re (orbit float64 c k)\<bar> \<le> 1 / 2 ^ 49 \<and> \<bar>Im (orbit float64 c k)\<bar> \<le> 1 / 2 ^ 49"
proof (induction k)
  case 0
  have "(1::real) / 2 ^ 51 \<le> 1 / 2 ^ 49" by simp
  with assms show ?case by simp
next
  case (Suc k)
  then show ?case
    using float64_square_plus_small[OF _ _ assms, of "orbit float64 c k"] by simp
qed

lemma float64_small_bounded:
  assumes "\<bar>Re z\<bar> \<le> 1 / 2 ^ 49" "\<bar>Im z\<bar> \<le> 1 / 2 ^ 49"
  shows "\<not> abs_gt_2 float64 z"
proof -
  have "(Re z)\<^sup>2 \<le> (1 / 2 ^ 49)\<^sup>2" "(Im z)\<^sup>2 \<le> (1 / 2 ^ 49)\<^sup>2"
    using assms by (simp_all add: abs_le_square_iff[symmetric])
  then have "(Re z)\<^sup>2 + (Im z)\<^sup>2 \<le> 2 * (1 / 2 ^ 49)\<^sup>2" by linarith
  also have "\<dots> < (2 + 1 / 2 ^ 52)\<^sup>2" by (simp add: power2_eq_square)
  finally show ?thesis by (simp add: float64_def)
qed

lemma float64_near_zero_sentinel:
  assumes "\<bar>Re c\<bar> \<le> 1 / 2 ^ 51" "\<bar>Im c\<bar> \<le> 1 / 2 ^ 51"
  shows "escape_time float64 c = 20"
proof -
  have "\<not> abs_gt_2 float64 (orbit float64 c k)" for k
    using float64_orbit_small[OF assms, of k] by (intro float64_small_bounded) simp_all
  then show ?thesis
    by (simp add: escape_time_orbit del: orbit.simps)
qed

lemma fl_exact_literals: "fl 1 = 1" "fl (3 / 2) = 3 / 2" "fl (- 1) = - 1" "fl (- (3 / 2)) = - (3 / 2)"
  by (simp_all add: fl_eval)

lemma first_sample:
  assumes "fl start = start"
  shows "ogrid_sample float64 start stop n 0 = start"
proof -
  have "ogrid_sample float64 start stop n 0
          = fl (fl (fl 0 * (if n = 1 then 1 else fl (fl (stop - start) / fl (real n - 1)))) + start)"
    by (simp add: float64_def)
  then show ?thesis
    by (simp add: fl_zero assms)
qed

section \<open>Where the two divergence tests agree\<close>

lemma first_index_agree:
  fixes P Q :: "nat \<Rightarrow> bool"
  assumes "\<forall>k<n. (\<forall>j<k. \<not> P j) \<longrightarrow> P k = Q k"
  shows "(if \<exists>i<n. P i then int (LEAST i. P i) else v)
           = (if \<exists>i<n. Q i then int (LEAST i. Q i) else v)"
proof (cases "\<exists>i<n. P i")
  case True
  then obtain i where i: "i < n" "P i" by blast
  define m where "m = (LEAST i. P i)"
  have m: "P m" "m \<le> i" and before: "\<And>j. j < m \<Longrightarrow> \<not> P j"
    unfolding m_def using i(2) by (auto intro: LeastI Least_le dest: not_less_Least)
  have same: "P k = Q k" if "k \<le> m" for k
  proof -
    have "k < n" using that m(2) i(1) by simp
    moreover have "\<forall>j<k. \<not> P j" using before that by auto
    ultimately show ?thesis using assms by blast
  qed
  have "Q m" using m(1) same by blast
  moreover have "m \<le> y" if "Q y" for y
  proof (rule ccontr)
    assume "\<not> m \<le> y"
    then have "y < m" "y \<le> m" by simp_all
    with before same that show False by blast
  qed
  ultimately have "(LEAST i. Q i) = m"
    by (rule Least_equality)
  moreover have "\<exists>i<n. Q i"
    using \<open>Q m\<close> m(2) i(1) by (intro exI[of _ m]) simp
  ultimately show ?thesis
    using True by (simp add: m_def)
next
  case False
  have "\<not> Q k" if "k < n" for k
  proof -
    have "\<forall>j<k. \<not> P j" using False that by auto
    then have "P k = Q k" using assms that by blast
    then show ?thesis using False that by blast
  qed
  with False show ?thesis by auto
qed

lemma orbit_test_swap: "orbit (A\<lparr>abs_gt_2 := t\<rparr>) c k = orbit A c k"
  by (induction k) simp_all

lemma numpy_escape_time_orbit:
  "escape_time (A\<lparr>abs_gt_2 := sumsq_gt_4 A\<rparr>) c =
     (if \<exists>i<20. sumsq_gt_4 A (orbit A c (Suc i))
      then int (LEAST i. sumsq_gt_4 A (orbit A c (Suc i))) else 20)"
proof -
  have sel: "abs_gt_2 (A\<lparr>abs_gt_2 := sumsq_gt_4 A\<rparr>) = sumsq_gt_4 A"
    by simp
  show ?thesis
    by (simp only: escape_time_orbit orbit_test_swap sel)
qed

lemma cell_agrees_when_tests_agree:
  assumes "0 < height" "0 < width" "row < nat height" "col < nat width"
    and "\<forall>k<20. (\<forall>j<k. \<not> abs_gt_2 A (orbit A (get2 (coordinates A height width) row col) (Suc j)))
           \<longrightarrow> abs_gt_2 A (orbit A (get2 (coordinates A height width) row col) (Suc k))
                 = sumsq_gt_4 A (orbit A (get2 (coordinates A height width) row col) (Suc k))"
  shows "get2 (field_of (mandelbrot_python A s height width)) row col
           = get2 (field_of (mandelbrot_numpy A s' height width)) row col"
proof -
  let ?c = "grid_point A height width row col"
  have idx: "row < nat \<bar>height\<bar>" "col < nat \<bar>width\<bar>"
    using assms(1-4) by simp_all
  have c: "get2 (coordinates A height width) row col = ?c"
    using idx by (rule coordinates_cells)
  have "escape_time A ?c = escape_time (A\<lparr>abs_gt_2 := sumsq_gt_4 A\<rparr>) ?c"
    unfolding numpy_escape_time_orbit escape_time_orbit[of A]
    using assms(5) unfolding c by (rule first_index_agree)
  then show ?thesis
    unfolding python_cells[OF assms(1-4)] numpy_cells[OF idx] .
qed

section \<open>The grid in float64\<close>

lemma sample_error:
  assumes "2 \<le> n" "k < n" "0 < s" "s \<le> 3 / 2" "fl s = s"
  shows "\<bar>ogrid_sample float64 (- s) 0 n k - (- s + real k * s / real (n - 1))\<bar> \<le> 1 / 2 ^ 48"
proof -
  define u :: real where "u = 1 / 2 ^ 53"
  define N where "N = real (n - 1)"
  define kk where "kk = real k"
  define F where "F = fl N"
  define r where "r = 1 / F"
  define q where "q = s / F"
  define st where "st = fl q"
  define K where "K = fl kk"
  define T where "T = kk * s / N"
  define P where "P = fl (K * st)"
  have u: "0 < u" "u \<le> 1 / 2" "9 * u \<le> 1" by (simp_all add: u_def)
  have N: "1 \<le> N" using assms(1) by (simp add: N_def)
  have kk: "0 \<le> kk" "kk \<le> N" using assms(1,2) by (simp_all add: kk_def N_def)
  have n1: "real n - 1 = N" "n \<noteq> 1"
    using assms(1) by (simp_all add: of_nat_diff N_def)
  have "ogrid_sample float64 (- s) 0 n k
          = fl (fl (fl (real k) * fl (fl s / fl (real n - 1))) + (- s))"
    using n1(2) by (simp add: float64_def)
  then have sample: "ogrid_sample float64 (- s) 0 n k = fl (P + (- s))"
    unfolding n1(1) assms(5) P_def K_def st_def q_def F_def kk_def .
  \<comment> \<open>the rounded divisor\<close>
  have eF: "\<bar>F - N\<bar> \<le> N * u"
    using fl_error[of N] N by (simp add: F_def u_def)
  have "N * u \<le> N * (1 / 2)" using u(2) N by (intro mult_left_mono) simp_all
  with eF have Fhalf: "N / 2 \<le> F" by linarith
  then have F: "0 < F" using N by linarith
  have r: "0 < r" "r * F = 1" using F by (simp_all add: r_def)
  have "r * (N / 2) \<le> r * F" using Fhalf r(1) by (intro mult_left_mono) simp_all
  then have rN: "r * N \<le> 2" using r(2) by simp
  have q: "q = s * r" "0 < q" using F assms(3) by (simp_all add: q_def r_def)
  \<comment> \<open>the step, scaled by \<open>N\<close>\<close>
  have "q * N - s = s * r * (N - F)"
    using r(2) by (simp add: q(1) algebra_simps)
  then have "\<bar>q * N - s\<bar> = s * r * \<bar>N - F\<bar>"
    using assms(3) r(1) by (simp add: abs_mult)
  also have "\<dots> \<le> s * r * (N * u)"
    using eF assms(3) r(1) by (intro mult_left_mono) (simp_all add: abs_minus_commute)
  also have "\<dots> = s * u * (r * N)" by simp
  also have "\<dots> \<le> s * u * 2"
    using rN assms(3) u(1) by (intro mult_left_mono) simp_all
  finally have e_q: "\<bar>q * N - s\<bar> \<le> 2 * s * u" by simp
  have "\<bar>st - q\<bar> \<le> q * u"
    using fl_error[of q] q(2) by (simp add: st_def u_def)
  then have "\<bar>st - q\<bar> * N \<le> q * u * N"
    using N by (intro mult_right_mono) simp_all
  also have "\<dots> = s * u * (r * N)" by (simp add: q(1))
  also have "\<dots> \<le> s * u * 2"
    using rN assms(3) u(1) by (intro mult_left_mono) simp_all
  finally have "\<bar>st * N - q * N\<bar> \<le> 2 * s * u"
    using N by (simp add: abs_mult left_diff_distrib[symmetric])
  with e_q have e_st: "\<bar>st * N - s\<bar> \<le> 4 * s * u" by linarith
  \<comment> \<open>the rounded index and the product\<close>
  have eK: "\<bar>K - kk\<bar> \<le> kk * u"
    using fl_error[of kk] kk(1) by (simp add: K_def u_def)
  have K2: "\<bar>K\<bar> \<le> 2 * kk"
    using fl_abs2[of kk] kk(1) by (simp add: K_def)
  have "K * st * N - kk * s = K * (st * N - s) + (K - kk) * s"
    by (simp add: algebra_simps)
  then have "\<bar>K * st * N - kk * s\<bar> \<le> \<bar>K\<bar> * \<bar>st * N - s\<bar> + \<bar>K - kk\<bar> * s"
    using assms(3) by (simp add: abs_mult[symmetric]) (metis abs_mult abs_of_pos abs_triangle_ineq)
  also have "\<dots> \<le> 2 * kk * (4 * s * u) + kk * u * s"
    using K2 e_st eK assms(3) kk(1)
    by (intro add_mono mult_mono mult_right_mono) simp_all
  also have "\<dots> = 9 * s * u * kk" by simp
  also have "\<dots> \<le> 9 * s * u * N"
    using kk(2) assms(3) u(1) by (intro mult_left_mono) simp_all
  finally have "\<bar>K * st * N - kk * s\<bar> \<le> 9 * s * u * N" .
  moreover have "K * st * N - kk * s = (K * st - T) * N"
    using N by (simp add: T_def algebra_simps)
  ultimately have "\<bar>K * st - T\<bar> * N \<le> 9 * s * u * N"
    using N by (simp add: abs_mult)
  then have e_prod: "\<bar>K * st - T\<bar> \<le> 9 * s * u"
    using N by simp
  have T: "0 \<le> T" "T \<le> s"
  proof -
    show "0 \<le> T" using kk(1) assms(3) N by (simp add: T_def)
    have "kk * s \<le> N * s" using kk(2) assms(3) by (intro mult_right_mono) simp_all
    then show "T \<le> s" using N by (simp add: T_def field_simps)
  qed
  have "9 * s * u \<le> s * 1" using u(3) assms(3) by (simp add: mult.commute mult_left_mono)
  with e_prod T have prod_le: "\<bar>K * st\<bar> \<le> 2 * s" by linarith
  have "\<bar>P - K * st\<bar> \<le> \<bar>K * st\<bar> * u"
    using fl_error[of "K * st"] by (simp add: P_def u_def)
  also have "\<dots> \<le> 2 * s * u"
    using prod_le u(1) by (intro mult_right_mono) simp_all
  finally have e_P: "\<bar>P - T\<bar> \<le> 11 * s * u"
    using e_prod by linarith
  \<comment> \<open>the final addition\<close>
  have "11 * s * u \<le> s"
  proof -
    have "s * (11 * u) \<le> s * 1" using assms(3) by (intro mult_left_mono) (simp_all add: u_def)
    then show ?thesis by (simp add: mult.commute mult.left_commute)
  qed
  with e_P T have "\<bar>P + (- s)\<bar> \<le> 2 * s" by linarith
  moreover have "\<bar>fl (P + (- s)) - (P + (- s))\<bar> \<le> \<bar>P + (- s)\<bar> * u"
    using fl_error[of "P + (- s)"] by (simp add: u_def)
  ultimately have "\<bar>fl (P + (- s)) - (P + (- s))\<bar> \<le> 2 * s * u"
    using u(1) by (meson mult_right_mono order_trans less_imp_le)
  with e_P have "\<bar>fl (P + (- s)) - (- s + T)\<bar> \<le> 13 * s * u" by linarith
  also have "\<dots> \<le> 13 * (3 / 2) * u"
    using assms(4) u(1) by (intro mult_right_mono mult_left_mono) simp_all
  also have "\<dots> \<le> 1 / 2 ^ 48" by (simp add: u_def)
  finally show ?thesis
    by (simp only: sample T_def kk_def N_def)
qed

lemma float64_add_times_1j: "add_times_1j float64 x y = Complex x y"
  by (simp add: float64_def)

lemma float64_grid_point:
  "Re (grid_point float64 height width r q) = ogrid_sample float64 (- 1.5) 0 (nat \<bar>width\<bar>) q"
  "Im (grid_point float64 height width r q) = ogrid_sample float64 (- 1) 0 (nat \<bar>height\<bar>) r"
  by (simp_all add: grid_point_def float64_add_times_1j)

lemma three_halves: "(1.5::real) = 3 / 2"
  by simp

lemma float64_cell_error:
  assumes "1 < height" "1 < width" "r < nat height" "q < nat width"
  shows "\<bar>Re (grid_point float64 height width r q)
           - (- 3 / 2 + real q * (3 / 2) / real (nat width - 1))\<bar> \<le> 1 / 2 ^ 48"
    and "\<bar>Im (grid_point float64 height width r q)
           - (- 1 + real r * 1 / real (nat height - 1))\<bar> \<le> 1 / 2 ^ 48"
proof -
  have abs: "nat \<bar>height\<bar> = nat height" "nat \<bar>width\<bar> = nat width"
    and two: "2 \<le> nat height" "2 \<le> nat width"
    using assms by simp_all
  have "\<bar>ogrid_sample float64 (- (3 / 2)) 0 (nat width) q
          - (- (3 / 2) + real q * (3 / 2) / real (nat width - 1))\<bar> \<le> 1 / 2 ^ 48"
    using two(2) assms(4) by (intro sample_error) (simp_all add: fl_exact_literals)
  then show "\<bar>Re (grid_point float64 height width r q)
           - (- 3 / 2 + real q * (3 / 2) / real (nat width - 1))\<bar> \<le> 1 / 2 ^ 48"
    unfolding float64_grid_point abs three_halves by (simp only: minus_divide_left)
  have "\<bar>ogrid_sample float64 (- 1) 0 (nat height) r
          - (- 1 + real r * 1 / real (nat height - 1))\<bar> \<le> 1 / 2 ^ 48"
    using two(1) assms(3) by (intro sample_error) (simp_all add: fl_exact_literals)
  then show "\<bar>Im (grid_point float64 height width r q)
           - (- 1 + real r * 1 / real (nat height - 1))\<bar> \<le> 1 / 2 ^ 48"
    unfolding float64_grid_point abs .
qed

lemma float64_first_cells:
  "Re (grid_point float64 height width r 0) = - 3 / 2"
  "Im (grid_point float64 height width 0 q) = - 1"
proof -
  have "ogrid_sample float64 (- (3 / 2)) 0 (nat \<bar>width\<bar>) 0 = - (3 / 2)"
    by (rule first_sample) (rule fl_exact_literals)
  then show "Re (grid_point float64 height width r 0) = - 3 / 2"
    unfolding float64_grid_point three_halves by (simp only: minus_divide_left)
  have "ogrid_sample float64 (- 1) 0 (nat \<bar>height\<bar>) 0 = - 1"
    by (rule first_sample) (rule fl_exact_literals)
  then show "Im (grid_point float64 height width 0 q) = - 1"
    unfolding float64_grid_point .
qed

lemma float64_last_cells:
  assumes "1 < height" "1 < width"
  shows "\<bar>Re (grid_point float64 height width r (nat width - 1))\<bar> \<le> 1 / 2 ^ 51"
    and "\<bar>Im (grid_point float64 height width (nat height - 1) q)\<bar> \<le> 1 / 2 ^ 51"
proof -
  have abs: "nat \<bar>height\<bar> = nat height" "nat \<bar>width\<bar> = nat width"
    and two: "2 \<le> nat height" "2 \<le> nat width"
    using assms by simp_all
  have "\<bar>ogrid_sample float64 (- (3 / 2)) 0 (nat width) (nat width - 1)\<bar> \<le> 1 / 2 ^ 51"
    using two(2) by (intro last_sample_bound) (simp_all add: fl_exact_literals)
  then show "\<bar>Re (grid_point float64 height width r (nat width - 1))\<bar> \<le> 1 / 2 ^ 51"
    unfolding float64_grid_point abs three_halves .
  have "\<bar>ogrid_sample float64 (- 1) 0 (nat height) (nat height - 1)\<bar> \<le> 1 / 2 ^ 51"
    using two(1) by (intro last_sample_bound) (simp_all add: fl_exact_literals)
  then show "\<bar>Im (grid_point float64 height width (nat height - 1) q)\<bar> \<le> 1 / 2 ^ 51"
    unfolding float64_grid_point abs .
qed

section \<open>Runs in float64\<close>

lemma sample_far: "ogrid_sample float64 (- 1) 0 44628208 311971 = - (8944234929091503 / 2 ^ 53)"
  by (simp add: float64_def fl_eval)

lemma fl_0: "fl 0 = 0"
  by (simp add: fl_eval)

lemma sample_single: "ogrid_sample float64 (- 1.5) 0 1 0 = - (3 / 2)"
proof -
  have "ogrid_sample float64 (- 1.5) 0 1 0 = fl (fl (fl 0) - 3 / 2)"
    by (simp add: float64_def)
  also have "\<dots> = - (3 / 2)"
    by (simp add: fl_eval)
  finally show ?thesis .
qed

lemma grid_point_far:
  "grid_point float64 44628208 1 311971 0 = Complex (- (3 / 2)) (- (8944234929091503 / 2 ^ 53))"
proof -
  have n: "nat \<bar>44628208::int\<bar> = 44628208" "nat \<bar>1::int\<bar> = 1"
    by simp_all
  have "add_times_1j float64 x y = Complex x y" for x y
    by (simp add: float64_def)
  then show ?thesis
    unfolding grid_point_def n sample_far sample_single by simp
qed

lemma far_pass_0:
  "square_plus float64 (Complex (- (3 / 2)) (- (8944234929091503 / 2 ^ 53)))
     (Complex (- (3 / 2)) (- (8944234929091503 / 2 ^ 53)))
   = Complex (- (1063155655502161 / 2 ^ 52)) (4472117464545751 / 2 ^ 51)"
  by (simp add: float64_def fl_eval)

lemma far_pass_1:
  "square_plus float64 (Complex (- (1063155655502161 / 2 ^ 52)) (4472117464545751 / 2 ^ 51))
     (Complex (- (3 / 2)) (- (8944234929091503 / 2 ^ 53)))
   = Complex (- (189592530779797 / 2 ^ 45)) (- (8695012364532969 / 2 ^ 52))"
  by (simp add: float64_def fl_eval)

lemma far_tests:
  "\<not> abs_gt_2 float64 (Complex (- (1063155655502161 / 2 ^ 52)) (4472117464545751 / 2 ^ 51))"
  "sumsq_gt_4 float64 (Complex (- (1063155655502161 / 2 ^ 52)) (4472117464545751 / 2 ^ 51))"
  "abs_gt_2 float64 (Complex (- (189592530779797 / 2 ^ 45)) (- (8695012364532969 / 2 ^ 52)))"
  by (simp_all add: float64_def fl_eval power2_eq_square)

lemma upt_20: "[0..<20] = 0 # 1 # [2..<20]"
  by (simp add: upt_conv_Cons)

lemma far_python:
  "escape_time float64 (Complex (- (3 / 2)) (- (8944234929091503 / 2 ^ 53))) = 1"
  unfolding escape_time_def upt_20 iterate.simps Let_def far_pass_0 far_pass_1
  using far_tests by simp

lemma far_numpy:
  "escape_time (float64\<lparr>abs_gt_2 := sumsq_gt_4 float64\<rparr>)
     (Complex (- (3 / 2)) (- (8944234929091503 / 2 ^ 53))) = 0"
proof (rule escape_first)
  have "sumsq_gt_4 float64 (square_plus float64
          (Complex (- (3 / 2)) (- (8944234929091503 / 2 ^ 53)))
          (Complex (- (3 / 2)) (- (8944234929091503 / 2 ^ 53))))"
    unfolding far_pass_0 by (rule far_tests(2))
  then show "abs_gt_2 (float64\<lparr>abs_gt_2 := sumsq_gt_4 float64\<rparr>)
     (square_plus (float64\<lparr>abs_gt_2 := sumsq_gt_4 float64\<rparr>)
       (Complex (- (3 / 2)) (- (8944234929091503 / 2 ^ 53)))
       (Complex (- (3 / 2)) (- (8944234929091503 / 2 ^ 53))))"
    by simp
qed

lemma float64_1x1:
  "grid_point float64 1 1 0 0 = Complex (- (3 / 2)) (- 1)"
  using float64_first_cells[of 1 1 0] float64_first_cells(2)[of 1 1 0]
  by (simp add: complex_eq_iff)

lemma float64_1x1_tests:
  "abs_gt_2 float64 (square_plus float64 (Complex (- (3 / 2)) (- 1)) (Complex (- (3 / 2)) (- 1)))"
  "sumsq_gt_4 float64 (square_plus float64 (Complex (- (3 / 2)) (- 1)) (Complex (- (3 / 2)) (- 1)))"
proof -
  have "square_plus float64 (Complex (- (3 / 2)) (- 1)) (Complex (- (3 / 2)) (- 1))
          = Complex (- (1 / 4)) 2"
    by (simp add: float64_def fl_eval)
  then show
    "abs_gt_2 float64 (square_plus float64 (Complex (- (3 / 2)) (- 1)) (Complex (- (3 / 2)) (- 1)))"
    "sumsq_gt_4 float64 (square_plus float64 (Complex (- (3 / 2)) (- 1)) (Complex (- (3 / 2)) (- 1)))"
    by (simp_all add: float64_def fl_eval power2_eq_square)
qed

lemma float64_corner:
  "grid_point float64 50 48 49 47 = Complex (- (1 / 2 ^ 52)) (- (1 / 2 ^ 53))"
proof -
  have n: "nat \<bar>50::int\<bar> = 50" "nat \<bar>48::int\<bar> = 48"
    by simp_all
  have s: "ogrid_sample float64 (- 1.5) 0 48 47 = - (1 / 2 ^ 52)"
    using sample_48 by simp
  show ?thesis
    unfolding grid_point_def n s sample_50 float64_add_times_1j ..
qed

section \<open>The claims\<close>

text \<open>
  Claim C1. For \<open>height > 0\<close>, \<open>width > 0\<close> and every cell \<open>(row, col)\<close>, the value
  that \<open>mandelbrot_python\<close> returns in the cell is the least index \<open>i\<close> below 20 at which
  the orbit of the cell's coordinate, started at \<open>z\<^sub>0 = c\<close>, has \<open>abs(z\<^sub>i\<^sub>+\<^sub>1) > 2\<close>, and it
  is 20 when there is no such index. This holds for every arithmetic.
\<close>

theorem python_cell_first_escape:
  assumes "0 < height" "0 < width" "row < nat height" "col < nat width"
  shows "get2 (field_of (mandelbrot_python A s height width)) row col =
     (if \<exists>i<20. abs_gt_2 A (orbit A (get2 (coordinates A height width) row col) (Suc i))
      then int (LEAST i. abs_gt_2 A (orbit A (get2 (coordinates A height width) row col) (Suc i)))
      else 20)"
proof -
  have "get2 (coordinates A height width) row col = grid_point A height width row col"
    using assms by (intro coordinates_cells) simp_all
  then show ?thesis
    unfolding python_cells[OF assms] by (simp only: escape_time_orbit)
qed

theorem python_cell_first_escape_witness:
  "(0::int) < 1 \<and> (0::nat) < nat 1 \<and>
   get2 (field_of (mandelbrot_python exact empty_store 1 1)) 0 0 = 0"
proof -
  let ?c = "get2 (coordinates exact 1 1) 0 0"
  have c: "?c = Complex (-3/2) (-1)"
    by (simp add: coordinates_cells grid_point_first)
  have first: "abs_gt_2 exact (orbit exact ?c (Suc 0))"
    unfolding c exact_tests_agree by (simp add: exact_def power2_eq_square)
  then have "\<exists>i<20. abs_gt_2 exact (orbit exact ?c (Suc i))"
    by (intro exI[of _ 0]) (simp del: orbit.simps)
  moreover have "(LEAST i. abs_gt_2 exact (orbit exact ?c (Suc i))) = 0"
    using first by (intro Least_eq_0)
  ultimately show ?thesis
    using python_cell_first_escape[of 1 1 0 0 exact empty_store] by (simp del: orbit.simps)
qed

text \<open>
  Claim C5. For \<open>height > 0\<close> and \<open>width > 0\<close>, every cell of the field returned by
  \<open>mandelbrot_python\<close> and by \<open>mandelbrot_numpy\<close> lies between 0 and 20 inclusive.
  This holds for every arithmetic.
\<close>

theorem cells_in_range:
  assumes "0 < height" "0 < width"
  shows "(\<forall>row\<in>set (field_of (mandelbrot_python A s height width)). \<forall>v\<in>set row. 0 \<le> v \<and> v \<le> 20) \<and>
         (\<forall>row\<in>set (field_of (mandelbrot_numpy A s' height width)). \<forall>v\<in>set row. 0 \<le> v \<and> v \<le> 20)"
proof -
  have "0 \<le> v \<and> v \<le> 20"
    if "row \<in> set (field_of (mandelbrot_python A s height width))" "v \<in> set row" for row v
  proof -
    from that obtain r q where "v = (if r < nat height \<and> q < nat width
        then escape_time A (grid_point A height width r q) else 20)"
      unfolding field_python by (blast dest: cell_tab)
    then show ?thesis
      using escape_time_range[of A "grid_point A height width r q"] by simp
  qed
  moreover have "0 \<le> v \<and> v \<le> 20"
    if "row \<in> set (field_of (mandelbrot_numpy A s' height width))" "v \<in> set row" for row v
  proof -
    from that obtain r q where
      "v = escape_time (A\<lparr>abs_gt_2 := sumsq_gt_4 A\<rparr>) (grid_point A height width r q)"
      unfolding field_numpy by (blast dest: cell_tab)
    then show ?thesis
      using escape_time_range by simp
  qed
  ultimately show ?thesis by blast
qed

theorem cells_in_range_witness:
  "(0::int) < 1 \<and>
   0 \<le> get2 (field_of (mandelbrot_python exact empty_store 1 1)) 0 0 \<and>
   get2 (field_of (mandelbrot_python exact empty_store 1 1)) 0 0 \<le> 20 \<and>
   0 \<le> get2 (field_of (mandelbrot_numpy exact empty_store 1 1)) 0 0 \<and>
   get2 (field_of (mandelbrot_numpy exact empty_store 1 1)) 0 0 \<le> 20"
proof -
  let ?p = "field_of (mandelbrot_python exact empty_store 1 1)"
  let ?n = "field_of (mandelbrot_numpy exact empty_store 1 1)"
  have "?p ! 0 \<in> set ?p" "?p ! 0 ! 0 \<in> set (?p ! 0)"
    by (rule nth_mem, simp add: field_python length_tab, rule nth_mem, simp add: field_python nth_tab)
  moreover have "?n ! 0 \<in> set ?n" "?n ! 0 ! 0 \<in> set (?n ! 0)"
    by (rule nth_mem, simp add: field_numpy length_tab, rule nth_mem, simp add: field_numpy nth_tab)
  ultimately show ?thesis
    using cells_in_range[of 1 1 exact empty_store empty_store]
    by (simp add: get2_def)
qed

text \<open>
  Claim C6. For \<open>height > 0\<close> and \<open>width > 0\<close>, the field returned by
  \<open>mandelbrot_python\<close> and by \<open>mandelbrot_numpy\<close> has the shape \<open>(height, width)\<close>:
  \<open>height\<close> rows, each of \<open>width\<close> cells, and every index pair inside the shape
  names a cell that holds a loop index or 20. This holds for every arithmetic.
\<close>

theorem field_shape:
  assumes "0 < height" "0 < width"
  shows "shape (field_of (mandelbrot_python A s height width)) = (nat height, nat width) \<and>
         (\<forall>row\<in>set (field_of (mandelbrot_python A s height width)). length row = nat width) \<and>
         (\<forall>r<nat height. \<forall>q<nat width.
            get2 (field_of (mandelbrot_python A s height width)) r q \<in> {0..20}) \<and>
         shape (field_of (mandelbrot_numpy A s' height width)) = (nat height, nat width) \<and>
         (\<forall>row\<in>set (field_of (mandelbrot_numpy A s' height width)). length row = nat width) \<and>
         (\<forall>r<nat height. \<forall>q<nat width.
            get2 (field_of (mandelbrot_numpy A s' height width)) r q \<in> {0..20})"
proof -
  have abs: "nat \<bar>height\<bar> = nat height" "nat \<bar>width\<bar> = nat width" and "0 < nat height"
    using assms by simp_all
  then have "shape (field_of (mandelbrot_python A s height width)) = (nat height, nat width)"
    "shape (field_of (mandelbrot_numpy A s' height width)) = (nat height, nat width)"
    by (simp_all add: field_python field_numpy shape_tab)
  moreover have "\<forall>row\<in>set (field_of (mandelbrot_python A s height width)). length row = nat width"
    "\<forall>row\<in>set (field_of (mandelbrot_numpy A s' height width)). length row = nat width"
    using abs by (auto simp: field_python field_numpy dest: row_tab)
  moreover have "get2 (field_of (mandelbrot_python A s height width)) r q \<in> {0..20}"
    if "r < nat height" "q < nat width" for r q
    using escape_time_range by (simp add: python_cells[OF assms that])
  moreover have "get2 (field_of (mandelbrot_numpy A s' height width)) r q \<in> {0..20}"
    if "r < nat height" "q < nat width" for r q
    using escape_time_range that abs by (simp add: numpy_cells)
  ultimately show ?thesis by blast
qed

theorem field_shape_witness:
  "(0::int) < 2 \<and> (0::int) < 3 \<and>
   shape (field_of (mandelbrot_python exact empty_store 2 3)) = (2, 3) \<and>
   length (field_of (mandelbrot_python exact empty_store 2 3) ! 1) = 3 \<and>
   get2 (field_of (mandelbrot_python exact empty_store 2 3)) 1 2 \<in> {0..20} \<and>
   shape (field_of (mandelbrot_numpy exact empty_store 2 3)) = (2, 3) \<and>
   length (field_of (mandelbrot_numpy exact empty_store 2 3) ! 1) = 3 \<and>
   get2 (field_of (mandelbrot_numpy exact empty_store 2 3)) 1 2 \<in> {0..20}"
proof -
  let ?p = "field_of (mandelbrot_python exact empty_store 2 3)"
  let ?n = "field_of (mandelbrot_numpy exact empty_store 2 3)"
  have "?p ! 1 \<in> set ?p" "?n ! 1 \<in> set ?n"
    by (simp_all add: field_python field_numpy length_tab)
  then show ?thesis
    using field_shape[of 2 3 exact empty_store empty_store] by simp
qed

text \<open>
  Claim C9. For \<open>height > 0\<close> and \<open>width > 0\<close>, two calls of \<open>mandelbrot_python\<close>
  with the same arguments return the same field whatever the stores they start from,
  and so do two calls of \<open>mandelbrot_numpy\<close>: the result does not depend on what
  memory held before the call or on where the arrays are allocated. This holds for
  every arithmetic.
\<close>

theorem field_deterministic:
  assumes "0 < height" "0 < width"
  shows "field_of (mandelbrot_python A s height width) = field_of (mandelbrot_python A s' height width) \<and>
         field_of (mandelbrot_numpy A s height width) = field_of (mandelbrot_numpy A s' height width)"
  by (simp add: field_python field_numpy)

theorem field_deterministic_witness:
  "(0::int) < 1 \<and>
   field_of (mandelbrot_python exact empty_store 1 1)
     = field_of (mandelbrot_python exact (empty_store\<lparr>free := 7\<rparr>) 1 1) \<and>
   field_of (mandelbrot_numpy exact empty_store 1 1)
     = field_of (mandelbrot_numpy exact (empty_store\<lparr>free := 7\<rparr>) 1 1)"
  using field_deterministic[of 1 1 exact empty_store "empty_store\<lparr>free := 7\<rparr>"] by simp

text \<open>
  Claim C10. In \<open>mandelbrot_numpy\<close> the name \<open>z\<close> starts bound to the array of \<open>c\<close>
  itself, but in every pass \<open>z = z**2 + c\<close> binds it to a newly allocated array before
  \<open>z[diverged] = 2\<close> writes in place, so the array of \<open>c\<close> is never written: it holds
  the coordinates when it is constructed, after every pass, and in the store the call
  leaves. This holds for every arithmetic.
\<close>

theorem numpy_keeps_c:
  assumes "numpy_init A s height width = (c, fractal, s2)" "k < 20"
  shows "complex_arrays s2 c = coordinates A height width \<and>
         fst (recur A c (numpy_loop A c fractal [0..<k] (c, s2))) \<noteq> c \<and>
         complex_arrays (snd (numpy_loop A c fractal [0..<Suc k] (c, s2))) c
           = coordinates A height width \<and>
         complex_arrays (snd (mandelbrot_numpy A s height width)) c = coordinates A height width"
proof -
  note inv = numpy_before_pass[OF assms(1)]
  have "complex_arrays s2 c = coordinates A height width"
    using numpy_inv_c[OF numpy_init_inv[OF assms(1)]] by (simp add: coordinates_grid)
  moreover have "fst (recur A c (numpy_loop A c fractal [0..<k] (c, s2))) \<noteq> c"
    by (rule recur_inv(3)[OF inv])
  moreover have "complex_arrays (snd (numpy_loop A c fractal idxs (c, s2))) c
           = coordinates A height width" for idxs
    using numpy_inv_c[OF inv] by (simp add: coordinates_grid)
  ultimately show ?thesis
    by (simp add: numpy_result[OF assms(1)])
qed

theorem numpy_keeps_c_witness:
  "numpy_init exact empty_store 1 1 = (0, 1, snd (snd (numpy_init exact empty_store 1 1))) \<and>
   (3::nat) < 20 \<and>
   complex_arrays (snd (snd (numpy_init exact empty_store 1 1))) 0 = coordinates exact 1 1 \<and>
   fst (recur exact 0 (numpy_loop exact 0 1 [0..<3]
          (0, snd (snd (numpy_init exact empty_store 1 1))))) \<noteq> 0 \<and>
   complex_arrays (snd (numpy_loop exact 0 1 [0..<Suc 3]
          (0, snd (snd (numpy_init exact empty_store 1 1))))) 0 = coordinates exact 1 1 \<and>
   complex_arrays (snd (mandelbrot_numpy exact empty_store 1 1)) 0 = coordinates exact 1 1"
proof -
  have init: "numpy_init exact empty_store 1 1 = (0, 1, snd (snd (numpy_init exact empty_store 1 1)))"
    by (simp add: numpy_init_def new_complex_def new_int_def empty_store_def)
  have "(3::nat) < 20" by simp
  from numpy_keeps_c[OF init this] init show ?thesis
    by simp
qed

text \<open>
  Claim C3 says that a call with a non-positive dimension fails with an InvalidArgument
  error and computes nothing. Neither function checks its arguments and nothing in them
  raises: with \<open>height = 0\<close> both return the field without rows, and with
  \<open>width = -1\<close> both return a field of one column, which \<open>mandelbrot_python\<close> leaves
  at 20 and \<open>mandelbrot_numpy\<close> computes as for \<open>width = 1\<close>.
\<close>

theorem nonpositive_dimension_counterexample:
  "field_of (mandelbrot_python exact empty_store 0 3) = [] \<and>
   field_of (mandelbrot_numpy exact empty_store 0 3) = [] \<and>
   field_of (mandelbrot_python exact empty_store 1 (- 1)) = [[20]] \<and>
   field_of (mandelbrot_numpy exact empty_store 1 (- 1)) = [[0]]"
proof -
  have "sumsq_gt_4 exact (square_plus exact (Complex (- 3 / 2) (- 1)) (Complex (- 3 / 2) (- 1)))"
    by (simp add: exact_def power2_eq_square)
  then have "escape_time exact (Complex (- 3 / 2) (- 1)) = 0"
    by (intro escape_first) (simp only: exact_tests_agree)
  then show ?thesis
    by (simp add: field_python field_numpy tab_0 tab_1_1 exact_test_swap grid_point_minus)
qed

text \<open>
  Claim C3 as amended. A call of \<open>mandelbrot_python\<close> or \<open>mandelbrot_numpy\<close> with a
  non-positive dimension raises no error: it returns a field with \<open>|height|\<close> rows of
  \<open>|width|\<close> cells each. This holds for every arithmetic.
\<close>

theorem nonpositive_dimension_returns:
  assumes "height \<le> 0 \<or> width \<le> 0"
  shows "length (field_of (mandelbrot_python A s height width)) = nat \<bar>height\<bar> \<and>
         (\<forall>row\<in>set (field_of (mandelbrot_python A s height width)). length row = nat \<bar>width\<bar>) \<and>
         length (field_of (mandelbrot_numpy A s height width)) = nat \<bar>height\<bar> \<and>
         (\<forall>row\<in>set (field_of (mandelbrot_numpy A s height width)). length row = nat \<bar>width\<bar>)"
  by (auto simp: field_python field_numpy length_tab dest: row_tab)

theorem nonpositive_dimension_returns_witness:
  "((1::int) \<le> 0 \<or> (- 1::int) \<le> 0) \<and>
   length (field_of (mandelbrot_python exact empty_store 1 (- 1))) = 1 \<and>
   length (field_of (mandelbrot_python exact empty_store 1 (- 1)) ! 0) = 1 \<and>
   length (field_of (mandelbrot_numpy exact empty_store 1 (- 1))) = 1 \<and>
   length (field_of (mandelbrot_numpy exact empty_store 1 (- 1)) ! 0) = 1"
proof -
  let ?p = "field_of (mandelbrot_python exact empty_store 1 (- 1))"
  let ?n = "field_of (mandelbrot_numpy exact empty_store 1 (- 1))"
  have "?p ! 0 \<in> set ?p" "?n ! 0 \<in> set ?n"
    by (simp_all add: field_python field_numpy length_tab)
  then show ?thesis
    using nonpositive_dimension_returns[of 1 "- 1" exact empty_store] by simp
qed

text \<open>
  Claim C8 says that \<open>mandelbrot_numpy\<close> does not update \<open>z\<close> in a cell that diverged
  at an earlier pass. On the grid of one cell, \<open>c = -1.5 - 1j\<close>, the cell diverges in
  pass 0 (\<open>fractal\<close> is 0 and \<open>z\<close> is reset to 2); in pass 1 the statement
  \<open>z = z**2 + c\<close> gives it the new value \<open>2.5 - 1j\<close>, and the test \<open>diverged\<close> holds
  for it again.
\<close>

theorem diverged_cell_counterexample:
  "fractal_cell 1 (numpy_loop exact 0 1 [0]
      (0, snd (snd (numpy_init exact empty_store 1 1)))) 0 0 = 0 \<and>
   z_cell (numpy_loop exact 0 1 [0]
      (0, snd (snd (numpy_init exact empty_store 1 1)))) 0 0 = 2 \<and>
   z_cell (recur exact 0 (numpy_loop exact 0 1 [0]
      (0, snd (snd (numpy_init exact empty_store 1 1))))) 0 0 = Complex (5 / 2) (- 1) \<and>
   get2 (diverged_mask exact (recur exact 0 (numpy_loop exact 0 1 [0]
      (0, snd (snd (numpy_init exact empty_store 1 1)))))) 0 0"
  by (intro conjI first_pass_1x1)

text \<open>
  Claim C8 as amended. In every pass of \<open>mandelbrot_numpy\<close> the statement
  \<open>z = z**2 + c\<close> updates every cell, also a cell that diverged at an earlier pass; at
  the end of the pass every cell that tests as diverged is reset to 2; the \<open>fractal\<close>
  value of a cell that has been recorded is not written again; and a recorded cell for
  which \<open>2**2 + c\<close> tests as diverged holds 2 before the pass and again after it.
  This holds for every arithmetic; \<open>exact_reclamp\<close> above shows that in exact
  arithmetic \<open>2**2 + c\<close> tests as diverged in every cell of the grid.
\<close>

theorem every_cell_updated_then_clamped:
  assumes "numpy_init A s height width = (c, fractal, s2)"
    and "i < 20" "row < nat \<bar>height\<bar>" "col < nat \<bar>width\<bar>"
  shows
    "z_cell (recur A c (numpy_loop A c fractal [0..<i] (c, s2))) row col
       = square_plus A (z_cell (numpy_loop A c fractal [0..<i] (c, s2)) row col)
           (get2 (coordinates A height width) row col) \<and>
     z_cell (numpy_step A c fractal i (numpy_loop A c fractal [0..<i] (c, s2))) row col
       = (if sumsq_gt_4 A (z_cell (recur A c (numpy_loop A c fractal [0..<i] (c, s2))) row col)
          then complex_2 A
          else z_cell (recur A c (numpy_loop A c fractal [0..<i] (c, s2))) row col) \<and>
     (fractal_cell fractal (numpy_loop A c fractal [0..<i] (c, s2)) row col \<noteq> 20 \<longrightarrow>
      fractal_cell fractal (numpy_step A c fractal i (numpy_loop A c fractal [0..<i] (c, s2))) row col
        = fractal_cell fractal (numpy_loop A c fractal [0..<i] (c, s2)) row col) \<and>
     (fractal_cell fractal (numpy_loop A c fractal [0..<i] (c, s2)) row col \<noteq> 20 \<and>
      sumsq_gt_4 A (square_plus A (complex_2 A) (get2 (coordinates A height width) row col)) \<longrightarrow>
      z_cell (numpy_loop A c fractal [0..<i] (c, s2)) row col = complex_2 A \<and>
      z_cell (numpy_step A c fractal i (numpy_loop A c fractal [0..<i] (c, s2))) row col
        = complex_2 A)"
proof -
  let ?st = "numpy_loop A c fractal [0..<i] (c, s2)"
  let ?g = "grid_point A height width row col"
  note inv = numpy_before_pass[OF assms(1), of "[0..<i]"]
  note mid = recur_inv[OF inv, of A]
  note after = record_and_clamp_inv[OF mid(1,3), of A i]
  note b = numpy_inv_cells[OF inv assms(3,4)]
  note m = numpy_inv_cells[OF mid(1) assms(3,4)]
  note a = numpy_inv_cells[OF after assms(3,4)]
  have g: "get2 (coordinates A height width) row col = ?g"
    using assms(3,4) by (rule coordinates_cells)
  have pinned: "z_cell ?st row col = complex_2 A"
    if "fractal_cell fractal ?st row col \<noteq> 20" "sumsq_gt_4 A (square_plus A (complex_2 A) ?g)"
    using cell_step_pinned[OF that(2), of 20 ?g "[0..<i]"] that(1) by (simp add: b)
  have upd: "z_cell (recur A c ?st) row col = square_plus A (z_cell ?st row col) ?g"
    by (simp add: m b)
  have clamp: "z_cell (numpy_step A c fractal i ?st) row col
       = (if sumsq_gt_4 A (z_cell (recur A c ?st) row col) then complex_2 A
          else z_cell (recur A c ?st) row col)"
    unfolding numpy_step_def by (simp add: a m b)
  have keep: "fractal_cell fractal (numpy_step A c fractal i ?st) row col
        = fractal_cell fractal ?st row col"
    if "fractal_cell fractal ?st row col \<noteq> 20"
    using that unfolding numpy_step_def by (simp add: a m b)
  have again: "z_cell (numpy_step A c fractal i ?st) row col = complex_2 A"
    if "fractal_cell fractal ?st row col \<noteq> 20" "sumsq_gt_4 A (square_plus A (complex_2 A) ?g)"
    using that(2) by (simp only: clamp upd pinned[OF that] if_True)
  show ?thesis
    unfolding g using upd clamp keep pinned again by blast
qed

theorem every_cell_updated_then_clamped_witness:
  "numpy_init exact empty_store 1 1 = (0, 1, snd (snd (numpy_init exact empty_store 1 1))) \<and>
   (1::nat) < 20 \<and>
   z_cell (recur exact 0 (numpy_loop exact 0 1 [0..<1]
       (0, snd (snd (numpy_init exact empty_store 1 1))))) 0 0
     = square_plus exact (z_cell (numpy_loop exact 0 1 [0..<1]
         (0, snd (snd (numpy_init exact empty_store 1 1)))) 0 0)
         (get2 (coordinates exact 1 1) 0 0) \<and>
   fractal_cell 1 (numpy_loop exact 0 1 [0..<1]
       (0, snd (snd (numpy_init exact empty_store 1 1)))) 0 0 \<noteq> 20 \<and>
   sumsq_gt_4 exact (square_plus exact (complex_2 exact) (get2 (coordinates exact 1 1) 0 0)) \<and>
   fractal_cell 1 (numpy_step exact 0 1 1 (numpy_loop exact 0 1 [0..<1]
       (0, snd (snd (numpy_init exact empty_store 1 1))))) 0 0
     = fractal_cell 1 (numpy_loop exact 0 1 [0..<1]
         (0, snd (snd (numpy_init exact empty_store 1 1)))) 0 0 \<and>
   z_cell (numpy_loop exact 0 1 [0..<1]
       (0, snd (snd (numpy_init exact empty_store 1 1)))) 0 0 = complex_2 exact \<and>
   z_cell (numpy_step exact 0 1 1 (numpy_loop exact 0 1 [0..<1]
       (0, snd (snd (numpy_init exact empty_store 1 1))))) 0 0 = complex_2 exact"
proof -
  have one: "[0..<1] = [0::nat]" by simp
  have idx: "(1::nat) < 20" "(0::nat) < nat \<bar>1\<bar>" by simp_all
  have re: "sumsq_gt_4 exact (square_plus exact (complex_2 exact) (get2 (coordinates exact 1 1) 0 0))"
    by (simp only: coordinates_cells idx exact_reclamp)
  have rec: "fractal_cell 1 (numpy_loop exact 0 1 [0..<1]
       (0, snd (snd (numpy_init exact empty_store 1 1)))) 0 0 \<noteq> 20"
    unfolding one first_pass_1x1(1) by simp
  show ?thesis
    using every_cell_updated_then_clamped[OF init_1x1 idx(1) idx(2) idx(2)] re rec init_1x1
    by simp
qed

text \<open>
  Claim C2 says that for \<open>height > 0\<close> and \<open>width > 0\<close> the two functions return the
  same field. They test divergence differently, \<open>abs(z) > 2\<close> and
  \<open>z.real**2 + z.imag**2 > 4\<close>. In float64, in the cell \<open>(311971, 0)\<close> of the grid of
  height 44628208 and width 1, the value after the first update has a modulus between
  2 and the midpoint to the next double while the rounded sum of its squares exceeds
  4: \<open>mandelbrot_python\<close> records 1 and \<open>mandelbrot_numpy\<close> records 0.
\<close>

theorem strategies_differ_counterexample:
  "get2 (field_of (mandelbrot_python float64 empty_store 44628208 1)) 311971 0 = 1 \<and>
   get2 (field_of (mandelbrot_numpy float64 empty_store 44628208 1)) 311971 0 = 0"
proof -
  have "get2 (field_of (mandelbrot_python float64 empty_store 44628208 1)) 311971 0
        = escape_time float64 (grid_point float64 44628208 1 311971 0)"
    by (rule python_cells) simp_all
  moreover have "get2 (field_of (mandelbrot_numpy float64 empty_store 44628208 1)) 311971 0
        = escape_time (float64\<lparr>abs_gt_2 := sumsq_gt_4 float64\<rparr>)
            (grid_point float64 44628208 1 311971 0)"
    by (rule numpy_cells) simp_all
  ultimately show ?thesis
    unfolding grid_point_far by (simp only: far_python far_numpy simp_thms)
qed

text \<open>
  Claim C2 as amended. For \<open>height > 0\<close> and \<open>width > 0\<close> the two functions return
  the same value in every cell on whose orbit the two divergence tests agree up to
  and including the first escape, for every arithmetic; in exact arithmetic the tests
  always agree and the two fields are equal.
\<close>

theorem strategies_agree_on_cell:
  assumes "0 < height" "0 < width" "row < nat height" "col < nat width"
  shows "((\<forall>k<20. (\<forall>j<k. \<not> abs_gt_2 A (orbit A (get2 (coordinates A height width) row col) (Suc j)))
            \<longrightarrow> abs_gt_2 A (orbit A (get2 (coordinates A height width) row col) (Suc k))
                  = sumsq_gt_4 A (orbit A (get2 (coordinates A height width) row col) (Suc k)))
          \<longrightarrow> get2 (field_of (mandelbrot_python A s height width)) row col
                = get2 (field_of (mandelbrot_numpy A s' height width)) row col) \<and>
         field_of (mandelbrot_python exact s height width)
           = field_of (mandelbrot_numpy exact s' height width)"
  using cell_agrees_when_tests_agree[OF assms, of A s s'] exact_strategies_agree[OF assms(1,2), of s s']
  by blast

theorem strategies_agree_on_cell_witness:
  "(0::int) < 1 \<and> (0::nat) < nat 1 \<and>
   get2 (field_of (mandelbrot_python float64 empty_store 1 1)) 0 0
     = get2 (field_of (mandelbrot_numpy float64 empty_store 1 1)) 0 0 \<and>
   field_of (mandelbrot_python exact empty_store 1 1)
     = field_of (mandelbrot_numpy exact empty_store 1 1)"
proof -
  let ?c = "get2 (coordinates float64 1 1) 0 0"
  have c: "?c = Complex (- (3 / 2)) (- 1)"
    by (simp add: coordinates_cells float64_1x1)
  have first: "abs_gt_2 float64 (orbit float64 ?c (Suc 0))"
    "sumsq_gt_4 float64 (orbit float64 ?c (Suc 0))"
    unfolding c using float64_1x1_tests by simp_all
  have "abs_gt_2 float64 (orbit float64 ?c (Suc k)) = sumsq_gt_4 float64 (orbit float64 ?c (Suc k))"
    if "\<forall>j<k. \<not> abs_gt_2 float64 (orbit float64 ?c (Suc j))" for k
  proof (cases k)
    case 0
    with first show ?thesis by (simp del: orbit.simps)
  next
    case (Suc k')
    with that first(1) show ?thesis by blast
  qed
  then have "\<forall>k<20. (\<forall>j<k. \<not> abs_gt_2 float64 (orbit float64 ?c (Suc j)))
           \<longrightarrow> abs_gt_2 float64 (orbit float64 ?c (Suc k))
                 = sumsq_gt_4 float64 (orbit float64 ?c (Suc k))"
    by blast
  moreover have "(0::int) < 1" "(0::nat) < nat 1" by simp_all
  ultimately show ?thesis
    using strategies_agree_on_cell[of 1 1 0 0 float64 empty_store empty_store] by blast
qed

text \<open>
  Claim C4 says that for \<open>height \<ge> 2\<close> and \<open>width \<ge> 2\<close> the cell
  \<open>(height-1, width-1)\<close> has the coordinate 0. In float64 the last sample of an axis
  is \<open>(n-1) * step + start\<close> with a rounded \<open>step\<close>: for height 50 and width 48
  the coordinate of that cell is \<open>-2^-52 - 2^-53 j\<close>.
\<close>

theorem last_cell_counterexample:
  "get2 (coordinates float64 50 48) 49 47 = Complex (- (1 / 2 ^ 52)) (- (1 / 2 ^ 53)) \<and>
   get2 (coordinates float64 50 48) 49 47 \<noteq> 0"
proof -
  have "get2 (coordinates float64 50 48) 49 47 = grid_point float64 50 48 49 47"
    by (rule coordinates_cells) simp_all
  then show ?thesis
    unfolding float64_corner by (simp add: complex_eq_iff)
qed

text \<open>
  Claim C4 as amended. For \<open>height \<ge> 2\<close> and \<open>width \<ge> 2\<close>,
  \<open>mandelbrot_python\<close> returns 20 in the cell \<open>(height-1, width-1)\<close>, in exact
  arithmetic and in float64. In exact arithmetic the coordinate of the cell is 0 and
  its orbit stays at 0; in float64 each part of the coordinate is within \<open>2^-51\<close>
  of 0 and each part of every orbit value within \<open>2^-49\<close>.
\<close>

theorem last_cell_sentinel:
  assumes "2 \<le> height" "2 \<le> width"
  shows "get2 (coordinates exact height width) (nat height - 1) (nat width - 1) = 0 \<and>
         orbit exact (get2 (coordinates exact height width) (nat height - 1) (nat width - 1)) k = 0 \<and>
         get2 (field_of (mandelbrot_python exact s height width)) (nat height - 1) (nat width - 1) = 20 \<and>
         \<bar>Re (get2 (coordinates float64 height width) (nat height - 1) (nat width - 1))\<bar> \<le> 1 / 2 ^ 51 \<and>
         \<bar>Im (get2 (coordinates float64 height width) (nat height - 1) (nat width - 1))\<bar> \<le> 1 / 2 ^ 51 \<and>
         \<bar>Re (orbit float64 (get2 (coordinates float64 height width) (nat height - 1) (nat width - 1)) k)\<bar>
           \<le> 1 / 2 ^ 49 \<and>
         \<bar>Im (orbit float64 (get2 (coordinates float64 height width) (nat height - 1) (nat width - 1)) k)\<bar>
           \<le> 1 / 2 ^ 49 \<and>
         get2 (field_of (mandelbrot_python float64 s' height width)) (nat height - 1) (nat width - 1) = 20"
proof -
  let ?r = "nat height - 1" and ?q = "nat width - 1"
  let ?c = "grid_point float64 height width ?r ?q"
  have pos: "0 < height" "0 < width" and gt: "1 < height" "1 < width"
    using assms by simp_all
  have idx: "?r < nat height" "?q < nat width"
    and idx': "?r < nat \<bar>height\<bar>" "?q < nat \<bar>width\<bar>"
    using assms by simp_all
  have c: "get2 (coordinates float64 height width) ?r ?q = ?c"
    using idx' by (rule coordinates_cells)
  have small: "\<bar>Re ?c\<bar> \<le> 1 / 2 ^ 51" "\<bar>Im ?c\<bar> \<le> 1 / 2 ^ 51"
    using float64_last_cells[OF gt] by simp_all
  have "get2 (field_of (mandelbrot_python float64 s' height width)) ?r ?q = 20"
    unfolding python_cells[OF pos idx] using small by (rule float64_near_zero_sentinel)
  then show ?thesis
    unfolding c
    using exact_last_cell[OF assms, of k s] small float64_orbit_small[OF small, of k]
    by blast
qed

theorem last_cell_sentinel_witness:
  "(2::int) \<le> 50 \<and> (2::int) \<le> 48 \<and>
   get2 (coordinates exact 50 48) 49 47 = 0 \<and>
   orbit exact (get2 (coordinates exact 50 48) 49 47) 20 = 0 \<and>
   get2 (field_of (mandelbrot_python exact empty_store 50 48)) 49 47 = 20 \<and>
   \<bar>Re (get2 (coordinates float64 50 48) 49 47)\<bar> \<le> 1 / 2 ^ 51 \<and>
   \<bar>Im (get2 (coordinates float64 50 48) 49 47)\<bar> \<le> 1 / 2 ^ 51 \<and>
   \<bar>Re (orbit float64 (get2 (coordinates float64 50 48) 49 47) 20)\<bar> \<le> 1 / 2 ^ 49 \<and>
   \<bar>Im (orbit float64 (get2 (coordinates float64 50 48) 49 47) 20)\<bar> \<le> 1 / 2 ^ 49 \<and>
   get2 (field_of (mandelbrot_python float64 empty_store 50 48)) 49 47 = 20"
proof -
  have n: "nat 50 - 1 = (49::nat)" "nat 48 - 1 = (47::nat)" by simp_all
  have a: "(2::int) \<le> 50" "(2::int) \<le> 48" by simp_all
  from last_cell_sentinel[OF a, of 20 empty_store empty_store] a show ?thesis
    unfolding n by blast
qed

text \<open>
  Claim C7 says that row \<open>height-1\<close> has the imaginary part 0, column \<open>width-1\<close> the
  real part 0, and the rows and columns between are interpolated linearly. In float64
  row 49 of 50 has the imaginary part \<open>-2^-53\<close>, column 47 of 48 has the real part
  \<open>-2^-52\<close>, and row 1 of 4 has an imaginary part that is not \<open>-2/3\<close>.
\<close>

theorem last_sample_counterexample:
  "Im (get2 (coordinates float64 50 48) 49 0) = - (1 / 2 ^ 53) \<and>
   Re (get2 (coordinates float64 50 48) 0 47) = - (1 / 2 ^ 52) \<and>
   Im (get2 (coordinates float64 4 4) 1 1) = - (6004799503160662 / 2 ^ 53) \<and>
   Im (get2 (coordinates float64 4 4) 1 1) \<noteq> - 1 + 1 * 1 / 3"
proof -
  have n: "nat \<bar>50::int\<bar> = 50" "nat \<bar>48::int\<bar> = 48" "nat \<bar>4::int\<bar> = 4"
    by simp_all
  have s: "ogrid_sample float64 (- 1.5) 0 48 47 = - (1 / 2 ^ 52)"
    using sample_48 by simp
  have "get2 (coordinates float64 50 48) 49 0 = grid_point float64 50 48 49 0"
    "get2 (coordinates float64 50 48) 0 47 = grid_point float64 50 48 0 47"
    "get2 (coordinates float64 4 4) 1 1 = grid_point float64 4 4 1 1"
    by (rule coordinates_cells; simp)+
  then have "Im (get2 (coordinates float64 50 48) 49 0) = - (1 / 2 ^ 53)"
    "Re (get2 (coordinates float64 50 48) 0 47) = - (1 / 2 ^ 52)"
    "Im (get2 (coordinates float64 4 4) 1 1) = - (6004799503160662 / 2 ^ 53)"
    by (simp_all only: float64_grid_point n sample_50 s sample_4_1)
  then show ?thesis
    by simp
qed

text \<open>
  Claim C7 as amended. For \<open>height > 1\<close> and \<open>width > 1\<close> the coordinate of the cell
  \<open>(row, col)\<close> is the linear interpolation with both bounds included, real part
  \<open>-1.5 + col * 1.5 / (width - 1)\<close> and imaginary part \<open>-1 + row * 1 / (height - 1)\<close>:
  exactly so in exact arithmetic, and in float64 with an error of at most \<open>2^-48\<close> in
  each part. In float64 row 0 has the imaginary part -1 and column 0 the real part
  -1.5 exactly, and row \<open>height-1\<close> and column \<open>width-1\<close> are within \<open>2^-51\<close> of 0.
\<close>

theorem grid_samples:
  assumes "1 < height" "1 < width" "row < nat height" "col < nat width"
  shows "get2 (coordinates exact height width) row col =
           Complex (- 3 / 2 + real col * (3 / 2) / real (nat width - 1))
                   (- 1 + real row * 1 / real (nat height - 1)) \<and>
         Im (get2 (coordinates exact height width) 0 col) = - 1 \<and>
         Im (get2 (coordinates exact height width) (nat height - 1) col) = 0 \<and>
         Re (get2 (coordinates exact height width) row 0) = - 3 / 2 \<and>
         Re (get2 (coordinates exact height width) row (nat width - 1)) = 0 \<and>
         \<bar>Re (get2 (coordinates float64 height width) row col)
            - (- 3 / 2 + real col * (3 / 2) / real (nat width - 1))\<bar> \<le> 1 / 2 ^ 48 \<and>
         \<bar>Im (get2 (coordinates float64 height width) row col)
            - (- 1 + real row * 1 / real (nat height - 1))\<bar> \<le> 1 / 2 ^ 48 \<and>
         Im (get2 (coordinates float64 height width) 0 col) = - 1 \<and>
         \<bar>Im (get2 (coordinates float64 height width) (nat height - 1) col)\<bar> \<le> 1 / 2 ^ 51 \<and>
         Re (get2 (coordinates float64 height width) row 0) = - 3 / 2 \<and>
         \<bar>Re (get2 (coordinates float64 height width) row (nat width - 1))\<bar> \<le> 1 / 2 ^ 51"
proof -
  have idx: "row < nat \<bar>height\<bar>" "col < nat \<bar>width\<bar>" "0 < nat \<bar>height\<bar>" "0 < nat \<bar>width\<bar>"
    "nat height - 1 < nat \<bar>height\<bar>" "nat width - 1 < nat \<bar>width\<bar>"
    using assms by simp_all
  have "get2 (coordinates float64 height width) row col = grid_point float64 height width row col"
    "get2 (coordinates float64 height width) 0 col = grid_point float64 height width 0 col"
    "get2 (coordinates float64 height width) (nat height - 1) col
       = grid_point float64 height width (nat height - 1) col"
    "get2 (coordinates float64 height width) row 0 = grid_point float64 height width row 0"
    "get2 (coordinates float64 height width) row (nat width - 1)
       = grid_point float64 height width row (nat width - 1)"
    using idx by (simp_all only: coordinates_cells)
  then show ?thesis
    using exact_grid_linear[OF assms] float64_cell_error[OF assms] float64_first_cells
      float64_last_cells[OF assms(1,2)]
    by (simp only: simp_thms)
qed

theorem grid_samples_witness:
  "(1::int) < 3 \<and> get2 (coordinates exact 3 3) 1 1 = Complex (- 3 / 4) (- 1 / 2) \<and>
   Im (get2 (coordinates exact 3 3) 0 1) = - 1 \<and>
   Im (get2 (coordinates exact 3 3) 2 1) = 0 \<and>
   Re (get2 (coordinates exact 3 3) 1 0) = - 3 / 2 \<and>
   Re (get2 (coordinates exact 3 3) 1 2) = 0 \<and>
   \<bar>Re (get2 (coordinates float64 3 3) 1 1) - (- 3 / 4)\<bar> \<le> 1 / 2 ^ 48 \<and>
   \<bar>Im (get2 (coordinates float64 3 3) 1 1) - (- 1 / 2)\<bar> \<le> 1 / 2 ^ 48 \<and>
   Im (get2 (coordinates float64 3 3) 0 1) = - 1 \<and>
   \<bar>Im (get2 (coordinates float64 3 3) 2 1)\<bar> \<le> 1 / 2 ^ 51 \<and>
   Re (get2 (coordinates float64 3 3) 1 0) = - 3 / 2 \<and>
   \<bar>Re (get2 (coordinates float64 3 3) 1 2)\<bar> \<le> 1 / 2 ^ 51"
  using grid_samples[of 3 3 1 1] by simp

end
